theory Spec2Isabelle
  imports Main
begin

section \<open>Vendor analysis pipeline (vendor_ai.py)\<close>

text \<open>
  The program is a straight-line pipeline of four stages over a vendor ledger:
  \<^verbatim>\<open>analyze_vendors\<close>, \<^verbatim>\<open>recommend_actions\<close>, \<^verbatim>\<open>identify_top_opportunities\<close> and
  \<^verbatim>\<open>save_to_csv\<close>, composed by \<^verbatim>\<open>full_pipeline\<close>. Every stage talks to the outside
  world: a language model, a web search, the clock and the file system.

  Strings are byte sequences (UTF-8). Python's \<^verbatim>\<open>float\<close>, \<^verbatim>\<open>str(float)\<close>,
  \<^verbatim>\<open>str.strip\<close> and \<^verbatim>\<open>str.lower\<close> are builtins of the language, not code of the
  program; they are parameters of the model, as are the external services.
\<close>

subsection \<open>Exceptions, events and the environment\<close>

datatype exn =
    SearchError string
  | GenerationError string
  | KeyError string
  | AttributeError
  | ValueError
  | IOError string

text \<open>The five model chains of the program; an event records which one made a call.\<close>

datatype chain =
    QueryChain | SummaryChain | ClassificationChain | RecommendationChain | AnalysisChain

text \<open>
  Everything observable that a run does. A call is recorded with its argument and its
  outcome (\<open>Inl\<close> a failure message, \<open>Inr\<close> the text returned).
\<close>

datatype event =
    LlmInvoke chain string "string + string"
  | SearchRun string "string + string"
  | Print string
  | FileRead string
  | FileWrite string string

text \<open>
  A row of \<^verbatim>\<open>csv.DictReader\<close>: a dict from column names to cells; a cell is \<open>None\<close>
  (Python's \<^verbatim>\<open>None\<close>) where the line was shorter than the header.
\<close>

type_synonym row = "string \<Rightarrow> string option option"

text \<open>
  The outside world. The services answer depending on everything that happened before
  (the trace, most recent event first), so a model that is not deterministic, a search
  that fails the second time and a clock that advances are all instances.
\<close>

record 'f env =
  llm_invoke :: "event list \<Rightarrow> string \<Rightarrow> string + string"
  search_run :: "event list \<Rightarrow> string \<Rightarrow> string + string"
  read_ledger :: "event list \<Rightarrow> string \<Rightarrow> string + row list"
  strftime_now :: "event list \<Rightarrow> string \<Rightarrow> string"
  open_write :: "event list \<Rightarrow> string \<Rightarrow> string option"
  py_float :: "string \<Rightarrow> 'f option"
  float_str :: "'f \<Rightarrow> string"
  str_strip :: "string \<Rightarrow> string"
  str_lower :: "string \<Rightarrow> string"

subsection \<open>Vendor records and the store\<close>

text \<open>
  A vendor record is the dict built at line 95; the key \<^verbatim>\<open>Action\<close> is absent
  (\<open>None\<close>) until \<^verbatim>\<open>recommend_actions\<close> assigns it. \<open>Vendor\<close> is the cell read from
  the ledger, so it can be Python's \<^verbatim>\<open>None\<close>.
\<close>

record 'f vendor_dict =
  Vendor :: "string option"
  Amount :: 'f
  Description :: string
  Category :: string
  Action :: "string option"

text \<open>
  Dicts and lists are objects: the stages pass references and mutate in place. The store
  holds the dict objects and the list objects; an address is an index. \<open>trace\<close> is the
  run's history, most recent event first.
\<close>

record 'f state =
  dict_heap :: "'f vendor_dict list"
  list_heap :: "nat list list"
  trace :: "event list"

definition emit :: "event \<Rightarrow> 'f state \<Rightarrow> 'f state" where
  "emit e s = s\<lparr>trace := e # trace s\<rparr>"

definition records_of :: "'f state \<Rightarrow> nat \<Rightarrow> 'f vendor_dict list" where
  "records_of s l = map (\<lambda>a. dict_heap s ! a) (list_heap s ! l)"

subsection \<open>String helpers\<close>

text \<open>\<^verbatim>\<open>str(x)\<close> of a cell, as an f-string or a template formats it.\<close>

definition py_str :: "string option \<Rightarrow> string" where
  "py_str v = (case v of None \<Rightarrow> ''None'' | Some t \<Rightarrow> t)"

fun py_join :: "string \<Rightarrow> string list \<Rightarrow> string" where
  "py_join sep [] = []"
| "py_join sep [x] = x"
| "py_join sep (x # y # ys) = x @ sep @ py_join sep (y # ys)"

text \<open>\<^verbatim>\<open>s.replace(old, new)\<close>: every non-overlapping occurrence, left to right.\<close>

function py_replace :: "string \<Rightarrow> string \<Rightarrow> string \<Rightarrow> string" where
  "py_replace s old new =
     (if old = [] then new @ concat (map (\<lambda>c. c # new) s)
      else if s = [] then []
      else if take (length old) s = old then new @ py_replace (drop (length old) s) old new
      else hd s # py_replace (tl s) old new)"
  by pat_completeness auto
termination
  by (relation "measure (\<lambda>(s, old, new). length s)") auto

declare py_replace.simps [simp del]

text \<open>Line 97: \<^verbatim>\<open>float(vendor["Amount"].replace(',', '').replace('$', ''))\<close>.\<close>

definition parse_amount :: "'f env \<Rightarrow> string \<Rightarrow> 'f option" where
  "parse_amount env a = py_float env (py_replace (py_replace a '','' '''') ''$'' '''')"

subsection \<open>Prompt templates (lines 20-66, 117-151, 176-204)\<close>

definition query_prompt :: "string \<Rightarrow> string" where
  "query_prompt vendor_name =
     ''Generate a search query to find what services '' @
     vendor_name @
     '' provides.''"

definition summary_prompt :: "string \<Rightarrow> string" where
  "summary_prompt search_results =
     ''\<newline>'' @
     ''Analyze the search results about a vendor and infer the core services they provide. \<newline>'' @
     ''Focus on identifying patterns, key offerings, and the primary value proposition'' @
     [CHR 0xE2, CHR 0x80, CHR 0x94] @
     ''not just summarizing the text. \<newline>'' @
     ''Avoid mentioning the vendor'' @
     [CHR 0x27] @
     ''s name. Be concise and descriptive in one sentence.  \<newline>'' @
     ''\<newline>'' @
     ''Search Results:  \<newline>'' @
     search_results @
     ''  \<newline>'' @
     ''\<newline>'' @
     ''Description of Services:''"

definition departments :: "string list" where
  "departments = [''Engineering'', ''Facilities'', ''G&A'', ''Legal'', ''M&A'', ''Marketing'',
                  ''SaaS'', ''Product'', ''Professional Services'', ''Sales'', ''Support'', ''Finance'']"

definition classification_prompt :: "string \<Rightarrow> string" where
  "classification_prompt service_description =
     ''\<newline>'' @
     ''Objective: \<newline>'' @
     ''Analyze the following vendor service description and any other relevant context to determine the most appropriate departmental category. \<newline>'' @
     ''Focus on the core function of the service, not the vendor'' @
     [CHR 0x27] @
     ''s name.  \<newline>'' @
     ''\<newline>'' @
     ''Service Description: '' @
     service_description @
     ''  \<newline>'' @
     ''\<newline>'' @
     ''Available Categories: '' @
     py_join '', '' departments @
     ''  \<newline>'' @
     ''\<newline>'' @
     ''Guidelines:\<newline>'' @
     ''- Choose the category that best aligns with the primary purpose of the service.  \<newline>'' @
     ''- If the service spans multiple departments, pick the one it most directly supports.  \<newline>'' @
     ''- Return only the category name, without explanations or extra text.  \<newline>'' @
     ''\<newline>'' @
     ''Answer:''"

definition recommendation_prompt :: "string \<Rightarrow> string \<Rightarrow> string \<Rightarrow> string \<Rightarrow> string \<Rightarrow> string" where
  \<open>recommendation_prompt vendor_summary vendor_name amount category description =
     ''\<newline>'' @
     ''    Objective:  \<newline>'' @
     ''    Analyze the vendor portfolio holistically and recommend the best action for \<newline>'' @
     ''    '' @
     vendor_name @
     '' based on strategic alignment, cost efficiency, and redundancy.  \<newline>'' @
     ''\<newline>'' @
     ''    Input Data:  \<newline>'' @
     ''    - Full Vendor Portfolio: '' @
     vendor_summary @
     ''  \<newline>'' @
     ''    - Target Vendor: '' @
     vendor_name @
     ''  \<newline>'' @
     ''    - Spend: $'' @
     amount @
     ''  \<newline>'' @
     ''    - Category: '' @
     category @
     ''  \<newline>'' @
     ''    - Service Description: '' @
     description @
     ''  \<newline>'' @
     ''\<newline>'' @
     ''    Evaluation Criteria:  \<newline>'' @
     ''    1. Duplicates/Overlaps: Does another vendor provide the same or similar service?  \<newline>'' @
     ''    2. Spend Efficiency: Is the cost justified relative to value?  \<newline>'' @
     ''    3. Portfolio Fit: Does this vendor align with long-term needs?  \<newline>'' @
     ''\<newline>'' @
     ''    Possible Actions:  \<newline>'' @
     ''    - `optimize` (Renegotiate terms, improve efficiency)  \<newline>'' @
     ''    - `consolidate: [Vendor Name]` (Merge with a specific vendor; must specify)  \<newline>'' @
     ''    - `terminate` (Discontinue due to irelevant to business operations, redundancy or low value)  \<newline>'' @
     ''\<newline>'' @
     ''    Rules:  \<newline>'' @
     ''    - Return ONLY the action in the exact format:  \<newline>'' @
     ''    - `optimize`  \<newline>'' @
     ''    - `consolidate: [Vendor Name]`  \<newline>'' @
     ''    - `terminate`  \<newline>'' @
     ''    - Never add explanations or deviations.  \<newline>'' @
     ''\<newline>'' @
     ''    Example Outputs:  \<newline>'' @
     ''    - "consolidate: AWS"  \<newline>'' @
     ''    - "terminate"  \<newline>'' @
     ''    - "optimize"  \<newline>'' @
     ''\<newline>'' @
     ''Recommendation for '' @
     vendor_name @
     '': ''\<close>

definition analysis_prompt :: "string \<Rightarrow> string" where
  \<open>analysis_prompt vendor_actions =
     ''\<newline>'' @
     ''    Analyze the vendor dataset holistically and identify the TOP 3 cost-saving opportunities with the highest potential impact. \<newline>'' @
     ''    Evaluate each opportunity using these criteria in order of priority:\<newline>'' @
     ''\<newline>'' @
     ''    1. Potential savings magnitude (prioritize highest $ impact)\<newline>'' @
     ''    2. Service/category redundancy (overlap with other vendors)\<newline>'' @
     ''    3. Strategic alignment (low-value or non-core services)\<newline>'' @
     ''\<newline>'' @
     ''    Input Data:\<newline>'' @
     ''    '' @
     vendor_actions @
     ''\<newline>'' @
     ''\<newline>'' @
     ''    Required Output Format:\<newline>'' @
     ''    - Strictly CSV format with EXACTLY these columns: "Vendor name","Recommended action","Explanation"\<newline>'' @
     ''    - Each explanation must include:\<newline>'' @
     ''    Specific $ impact potential (estimate if exact unavailable)\<newline>'' @
     ''    Clear redundancy/overlap evidence (if applicable)\<newline>'' @
     ''    Strategic rationale\<newline>'' @
     ''\<newline>'' @
     ''    Rules:\<newline>'' @
     ''    - Output ONLY valid CSV data - no headers, titles, or explanations\<newline>'' @
     ''    - Never use markdown code blocks or quotes\<newline>'' @
     ''    - Limit the output to only the TOP 3\<newline>'' @
     ''    - If fewer than 3 opportunities exist, leave remaining rows empty\<newline>'' @
     ''\<newline>'' @
     ''    Example Output:\<newline>'' @
     ''    "Acme Corp","consolidate: XYZ Inc","$250K potential savings, duplicate CRM tools"\<newline>'' @
     ''    "Beta LLC","terminate","$180K savings, non-core legal service"\<newline>'' @
     ''    "Gamma Inc","optimize","$90K via contract renegotiation"\<newline>''\<close>

subsection \<open>External calls\<close>

text \<open>
  A chain \<^verbatim>\<open>prompt | llm | (lambda x: x.content)\<close> formats the prompt, calls the model and
  returns the text of the answer. Nothing catches a failure of the call.
\<close>

definition call_llm :: "'f env \<Rightarrow> chain \<Rightarrow> string \<Rightarrow> 'f state \<Rightarrow> (exn + string) \<times> 'f state" where
  "call_llm env c prompt s =
     (let r = llm_invoke env (trace s) prompt;
          s' = emit (LlmInvoke c prompt r) s
      in case r of
           Inl m \<Rightarrow> (Inl (GenerationError m), s')
         | Inr content \<Rightarrow> (Inr content, s'))"

text \<open>Line 70: \<^verbatim>\<open>search.run(x["search_query"])\<close>.\<close>

definition call_search :: "'f env \<Rightarrow> string \<Rightarrow> 'f state \<Rightarrow> (exn + string) \<times> 'f state" where
  "call_search env q s =
     (let r = search_run env (trace s) q;
          s' = emit (SearchRun q r) s
      in case r of
           Inl m \<Rightarrow> (Inl (SearchError m), s')
         | Inr txt \<Rightarrow> (Inr txt, s'))"

text \<open>\<^verbatim>\<open>with open(name, "w") as f: f.write(content)\<close>; opening can fail.\<close>

definition write_file :: "'f env \<Rightarrow> string \<Rightarrow> string \<Rightarrow> 'f state \<Rightarrow> (exn + unit) \<times> 'f state" where
  "write_file env name content s =
     (case open_write env (trace s) name of
        Some m \<Rightarrow> (Inl (IOError m), s)
      | None \<Rightarrow> (Inr (), emit (FileWrite name content) s))"

subsection \<open>Enrichment stage\<close>

text \<open>The dict that \<^verbatim>\<open>analyze_pipeline\<close> (lines 68-73) returns.\<close>

record analysis =
  vendor_name :: "string option"
  search_query :: string
  search_results :: string
  service_description :: string
  category :: string

definition analyze_pipeline :: "'f env \<Rightarrow> string option \<Rightarrow> 'f state \<Rightarrow> (exn + analysis) \<times> 'f state" where
  "analyze_pipeline env name s =
     (case call_llm env QueryChain (query_prompt (py_str name)) s of
        (Inl e, s1) \<Rightarrow> (Inl e, s1)
      | (Inr q, s1) \<Rightarrow>
     (case call_search env q s1 of
        (Inl e, s2) \<Rightarrow> (Inl e, s2)
      | (Inr res, s2) \<Rightarrow>
     (case call_llm env SummaryChain (summary_prompt res) s2 of
        (Inl e, s3) \<Rightarrow> (Inl e, s3)
      | (Inr descr, s3) \<Rightarrow>
     (case call_llm env ClassificationChain (classification_prompt descr) s3 of
        (Inl e, s4) \<Rightarrow> (Inl e, s4)
      | (Inr cat, s4) \<Rightarrow>
          (Inr \<lparr>vendor_name = name, search_query = q, search_results = res,
                service_description = descr, category = cat\<rparr>, s4)))))"

definition alloc_dict :: "'f vendor_dict \<Rightarrow> 'f state \<Rightarrow> nat \<times> 'f state" where
  "alloc_dict d s = (length (dict_heap s), s\<lparr>dict_heap := dict_heap s @ [d]\<rparr>)"

definition alloc_list :: "'f state \<Rightarrow> nat \<times> 'f state" where
  "alloc_list s = (length (list_heap s), s\<lparr>list_heap := list_heap s @ [[]]\<rparr>)"

definition list_append :: "nat \<Rightarrow> nat \<Rightarrow> 'f state \<Rightarrow> 'f state" where
  "list_append l a s = s\<lparr>list_heap := (list_heap s)[l := list_heap s ! l @ [a]]\<rparr>"

text \<open>
  The body of the loop at lines 93-101 for one ledger row; \<open>l\<close> is the list
  \<^verbatim>\<open>processed_data\<close>. \<^verbatim>\<open>vendor["Vendor"]\<close> is read before the calls, the amount after.
\<close>

definition analyze_vendor :: "'f env \<Rightarrow> nat \<Rightarrow> row \<Rightarrow> 'f state \<Rightarrow> (exn + unit) \<times> 'f state" where
  "analyze_vendor env l vendor s =
     (case vendor ''Vendor'' of
        None \<Rightarrow> (Inl (KeyError ''Vendor''), s)
      | Some name \<Rightarrow>
     (case analyze_pipeline env name s of
        (Inl e, s1) \<Rightarrow> (Inl e, s1)
      | (Inr result, s1) \<Rightarrow>
     (case vendor ''Amount'' of
        None \<Rightarrow> (Inl (KeyError ''Amount''), s1)
      | Some None \<Rightarrow> (Inl AttributeError, s1)
      | Some (Some a) \<Rightarrow>
     (case parse_amount env a of
        None \<Rightarrow> (Inl ValueError, s1)
      | Some amt \<Rightarrow>
          (let (d, s2) = alloc_dict \<lparr>Vendor = name, Amount = amt,
                                     Description = service_description result,
                                     Category = category result, Action = None\<rparr> s1;
               s3 = list_append l d s2
           in (Inr (), emit (Print (''classifiying vendor: '' @ py_str name @ '' - '' @
                                     category result @ '' - '' @ service_description result)) s3))))))"

fun analyze_loop :: "'f env \<Rightarrow> nat \<Rightarrow> row list \<Rightarrow> 'f state \<Rightarrow> (exn + unit) \<times> 'f state" where
  "analyze_loop env l [] s = (Inr (), s)"
| "analyze_loop env l (vendor # vendors) s =
     (case analyze_vendor env l vendor s of
        (Inl e, s') \<Rightarrow> (Inl e, s')
      | (Inr u, s') \<Rightarrow> analyze_loop env l vendors s')"

text \<open>Lines 87-102. The result is the reference to the new list \<^verbatim>\<open>processed_data\<close>.\<close>

definition analyze_vendors :: "'f env \<Rightarrow> string \<Rightarrow> 'f state \<Rightarrow> (exn + nat) \<times> 'f state" where
  "analyze_vendors env input_file s =
     (case read_ledger env (trace s) input_file of
        Inl m \<Rightarrow> (Inl (IOError m), emit (FileRead input_file) s)
      | Inr vendors \<Rightarrow>
          (let (l, s1) = alloc_list (emit (FileRead input_file) s)
           in case analyze_loop env l vendors s1 of
                (Inl e, s2) \<Rightarrow> (Inl e, s2)
              | (Inr u, s2) \<Rightarrow> (Inr l, s2)))"

subsection \<open>Recommendation stage\<close>

definition vendor_summary_line :: "'f env \<Rightarrow> 'f vendor_dict \<Rightarrow> string" where
  "vendor_summary_line env v =
     py_str (Vendor v) @ '' ($'' @ float_str env (Amount v) @ '', '' @ Category v @ ''): '' @
     Description v"

text \<open>
  The loop at lines 157-166 over the records of the list; \<open>a\<close> is the reference held in
  the loop variable \<^verbatim>\<open>vendor\<close>, and line 165 writes through it.
\<close>

fun recommend_loop :: "'f env \<Rightarrow> string \<Rightarrow> nat list \<Rightarrow> 'f state \<Rightarrow> (exn + unit) \<times> 'f state" where
  "recommend_loop env summary [] s = (Inr (), s)"
| "recommend_loop env summary (a # as) s =
     (let v = dict_heap s ! a in
      case call_llm env RecommendationChain
             (recommendation_prompt summary (py_str (Vendor v)) (float_str env (Amount v))
                (Category v) (Description v)) s of
        (Inl e, s1) \<Rightarrow> (Inl e, s1)
      | (Inr content, s1) \<Rightarrow>
          (let recommendation = str_lower env (str_strip env content);
               s2 = s1\<lparr>dict_heap := (dict_heap s1)[a := (dict_heap s1 ! a)\<lparr>Action := Some recommendation\<rparr>]\<rparr>;
               s3 = emit (Print (''recommending action for vendor: '' @
                                  py_str (Vendor (dict_heap s2 ! a)) @ '' - '' @ recommendation)) s2
           in recommend_loop env summary as s3))"

text \<open>Lines 104-168. The list passed in is the list returned.\<close>

definition recommend_actions :: "'f env \<Rightarrow> nat \<Rightarrow> 'f state \<Rightarrow> (exn + nat) \<times> 'f state" where
  "recommend_actions env processed_data s =
     (let vendor_summary = py_join ''\<newline>'' (map (vendor_summary_line env) (records_of s processed_data))
      in case recommend_loop env vendor_summary (list_heap s ! processed_data) s of
           (Inl e, s') \<Rightarrow> (Inl e, s')
         | (Inr u, s') \<Rightarrow> (Inr processed_data, s'))"

subsection \<open>Opportunity stage\<close>

text \<open>Lines 207-210; \<^verbatim>\<open>v['Action']\<close> raises where the key is absent.\<close>

fun vendor_action_lines :: "'f env \<Rightarrow> 'f vendor_dict list \<Rightarrow> exn + string list" where
  "vendor_action_lines env [] = Inr []"
| "vendor_action_lines env (v # vs) =
     (case Action v of
        None \<Rightarrow> Inl (KeyError ''Action'')
      | Some act \<Rightarrow>
          (case vendor_action_lines env vs of
             Inl e \<Rightarrow> Inl e
           | Inr ls \<Rightarrow>
               Inr ((py_str (Vendor v) @ '' ($'' @ float_str env (Amount v) @ ''): '' @ act @
                     '' | '' @ Description v) # ls)))"

text \<open>Lines 170-225.\<close>

definition identify_top_opportunities :: "'f env \<Rightarrow> nat \<Rightarrow> 'f state \<Rightarrow> (exn + string) \<times> 'f state" where
  "identify_top_opportunities env processed_data_with_actions s =
     (case vendor_action_lines env (records_of s processed_data_with_actions) of
        Inl e \<Rightarrow> (Inl e, s)
      | Inr ls \<Rightarrow>
     (case call_llm env AnalysisChain (analysis_prompt (py_join ''\<newline>'' ls))
             (emit (Print ''identifying opportunities'') s) of
        (Inl e, s1) \<Rightarrow> (Inl e, s1)
      | (Inr opportunities, s1) \<Rightarrow>
          (let timestamp = strftime_now env (trace s1) ''%Y-%m-%d_%H-%M-%S'';
               filename = ''opportunities_'' @ timestamp @ ''.txt''
           in case write_file env filename opportunities s1 of
                (Inl e, s2) \<Rightarrow> (Inl e, s2)
              | (Inr u, s2) \<Rightarrow> (Inr opportunities, s2))))"

subsection \<open>Persistence stage\<close>

text \<open>
  The \<^verbatim>\<open>csv\<close> writer in its default dialect: comma, double quote, doubled quotes,
  minimal quoting, lines ended by CR LF.
\<close>

definition csv_special :: "char \<Rightarrow> bool" where
  "csv_special c = (c = CHR '','' \<or> c = CHR 0x22 \<or> c = CHR 0x0D \<or> c = CHR 0x0A)"

definition csv_field :: "string \<Rightarrow> string" where
  "csv_field f =
     (if list_ex csv_special f
      then [CHR 0x22] @ concat (map (\<lambda>c. if c = CHR 0x22 then [c, c] else [c]) f) @ [CHR 0x22]
      else f)"

definition csv_writerow :: "string list \<Rightarrow> string" where
  "csv_writerow cells =
     (if cells = [[]] then [CHR 0x22, CHR 0x22] else py_join '','' (map csv_field cells))
     @ [CHR 0x0D, CHR 0x0A]"

definition fieldnames :: "string list" where
  "fieldnames = [''Vendor'', ''Amount'', ''Description'', ''Category'', ''Action'']"

text \<open>
  \<^verbatim>\<open>DictWriter._dict_to_list\<close>: the values in the order of \<open>fieldnames\<close>, the empty
  string for an absent key; the writer prints \<^verbatim>\<open>None\<close> as the empty string.
\<close>

definition dict_to_list :: "'f env \<Rightarrow> 'f vendor_dict \<Rightarrow> string list" where
  "dict_to_list env v =
     [case Vendor v of None \<Rightarrow> [] | Some n \<Rightarrow> n,
      float_str env (Amount v),
      Description v,
      Category v,
      case Action v of None \<Rightarrow> [] | Some act \<Rightarrow> act]"

definition csv_text :: "string list list \<Rightarrow> string" where
  "csv_text rows = concat (map csv_writerow rows)"

text \<open>Lines 75-85.\<close>

definition save_to_csv :: "'f env \<Rightarrow> nat \<Rightarrow> 'f state \<Rightarrow> (exn + string) \<times> 'f state" where
  "save_to_csv env data s =
     (let timestamp = strftime_now env (trace s) ''%Y%m%d_%H%M%S'';
          output_file = ''results_'' @ timestamp @ ''.csv''
      in case write_file env output_file
                (csv_text (fieldnames # map (dict_to_list env) (records_of s data))) s of
           (Inl e, s') \<Rightarrow> (Inl e, s')
         | (Inr u, s') \<Rightarrow> (Inr (''Data saved to '' @ output_file), s'))"

subsection \<open>The pipeline (lines 227-249)\<close>

text \<open>
  The dict that flows through \<^verbatim>\<open>full_pipeline\<close>. \<^verbatim>\<open>RunnablePassthrough.assign\<close> returns
  the dict it was given with one more key; the two list keys hold references.
\<close>

record pipeline_dict =
  input_file :: "string option"
  processed_data :: "nat option"
  processed_data_with_actions :: "nat option"
  top_opportunities :: "string option"

definition process_vendors_tool ::
  "'f env \<Rightarrow> pipeline_dict \<Rightarrow> 'f state \<Rightarrow> (exn + pipeline_dict) \<times> 'f state" where
  "process_vendors_tool env x s =
     (case input_file x of
        None \<Rightarrow> (Inl (KeyError ''input_file''), s)
      | Some f \<Rightarrow>
          (case analyze_vendors env f s of
             (Inl e, s') \<Rightarrow> (Inl e, s')
           | (Inr l, s') \<Rightarrow> (Inr (x\<lparr>processed_data := Some l\<rparr>), s')))"

definition add_actions_tool ::
  "'f env \<Rightarrow> pipeline_dict \<Rightarrow> 'f state \<Rightarrow> (exn + pipeline_dict) \<times> 'f state" where
  "add_actions_tool env x s =
     (case processed_data x of
        None \<Rightarrow> (Inl (KeyError ''processed_data''), s)
      | Some l \<Rightarrow>
          (case recommend_actions env l s of
             (Inl e, s') \<Rightarrow> (Inl e, s')
           | (Inr l', s') \<Rightarrow> (Inr (x\<lparr>processed_data_with_actions := Some l'\<rparr>), s')))"

definition identify_opportunities_tool ::
  "'f env \<Rightarrow> pipeline_dict \<Rightarrow> 'f state \<Rightarrow> (exn + pipeline_dict) \<times> 'f state" where
  "identify_opportunities_tool env x s =
     (case processed_data_with_actions x of
        None \<Rightarrow> (Inl (KeyError ''processed_data_with_actions''), s)
      | Some l \<Rightarrow>
          (case identify_top_opportunities env l s of
             (Inl e, s') \<Rightarrow> (Inl e, s')
           | (Inr opp, s') \<Rightarrow> (Inr (x\<lparr>top_opportunities := Some opp\<rparr>), s')))"

text \<open>
  Line 239: \<^verbatim>\<open>RunnablePassthrough(f)\<close> calls \<open>f\<close> for its effect and passes its input on;
  the message \<^verbatim>\<open>save_to_csv\<close> returns is dropped.
\<close>

definition save_results_tool ::
  "'f env \<Rightarrow> pipeline_dict \<Rightarrow> 'f state \<Rightarrow> (exn + pipeline_dict) \<times> 'f state" where
  "save_results_tool env x s =
     (case processed_data x of
        None \<Rightarrow> (Inl (KeyError ''processed_data''), s)
      | Some l \<Rightarrow>
          (case save_to_csv env l s of
             (Inl e, s') \<Rightarrow> (Inl e, s')
           | (Inr msg, s') \<Rightarrow> (Inr x, s')))"

definition full_pipeline ::
  "'f env \<Rightarrow> pipeline_dict \<Rightarrow> 'f state \<Rightarrow> (exn + pipeline_dict) \<times> 'f state" where
  "full_pipeline env x s =
     (case process_vendors_tool env x s of
        (Inl e, s1) \<Rightarrow> (Inl e, s1)
      | (Inr x1, s1) \<Rightarrow>
     (case add_actions_tool env x1 s1 of
        (Inl e, s2) \<Rightarrow> (Inl e, s2)
      | (Inr x2, s2) \<Rightarrow>
     (case identify_opportunities_tool env x2 s2 of
        (Inl e, s3) \<Rightarrow> (Inl e, s3)
      | (Inr x3, s3) \<Rightarrow> save_results_tool env x3 s3)))"

section \<open>Observing a run\<close>

text \<open>
  The properties below speak of what a run did: which answers the model gave, which files were
  written, which call failed. These functions read it off the trace. The trace holds the most
  recent event first; the results are in the order in which things happened.
\<close>

fun response_of :: "chain \<Rightarrow> event \<Rightarrow> string list" where
  "response_of c (LlmInvoke c' p (Inr r)) = (if c' = c then [r] else [])"
| "response_of c ev = []"

definition llm_responses :: "chain \<Rightarrow> event list \<Rightarrow> string list" where
  "llm_responses c evs = concat (map (response_of c) (rev evs))"

fun write_of :: "event \<Rightarrow> (string \<times> string) list" where
  "write_of (FileWrite name content) = [(name, content)]"
| "write_of ev = []"

definition file_writes :: "event list \<Rightarrow> (string \<times> string) list" where
  "file_writes evs = concat (map write_of (rev evs))"

text \<open>
  \<open>raised_by ev e\<close>: the event \<open>ev\<close> is a failed external call, and \<open>e\<close> is the exception it
  raised. \<open>is_external\<close> are the exceptions of the external services.
\<close>

fun raised_by :: "event \<Rightarrow> exn \<Rightarrow> bool" where
  "raised_by (LlmInvoke c p (Inl m)) e = (e = GenerationError m)"
| "raised_by (SearchRun q (Inl m)) e = (e = SearchError m)"
| "raised_by ev e = False"

fun is_external :: "exn \<Rightarrow> bool" where
  "is_external (SearchError m) = True"
| "is_external (GenerationError m) = True"
| "is_external e = False"

text \<open>
  A failed external call, and what it means for a run with result \<open>r\<close> and events
  \<open>evs\<close> that failures propagate: either the run ended with the exception of an external
  service, or no external call failed in it.
\<close>

fun is_failed_call :: "event \<Rightarrow> bool" where
  "is_failed_call (LlmInvoke c p (Inl m)) = True"
| "is_failed_call (SearchRun q (Inl m)) = True"
| "is_failed_call ev = False"

definition propagated :: "(exn + 'a) \<Rightarrow> event list \<Rightarrow> bool" where
  "propagated r evs = ((\<exists>e. r = Inl e \<and> is_external e) \<or> \<not> list_ex is_failed_call evs)"

text \<open>
  The events of a run from \<open>s\<close> to \<open>s'\<close>, most recent first.
\<close>

definition new_events :: "'f state \<Rightarrow> 'f state \<Rightarrow> event list" where
  "new_events s s' = take (length (trace s') - length (trace s)) (trace s')"

text \<open>
  The four fields that the enrichment stage assigns, and the value that line 154 computes
  from an answer of the model.
\<close>

definition core :: "'f vendor_dict \<Rightarrow> string option \<times> 'f \<times> string \<times> string" where
  "core v = (Vendor v, Amount v, Description v, Category v)"

definition normalise :: "'f env \<Rightarrow> string \<Rightarrow> string option" where
  "normalise env content = Some (str_lower env (str_strip env content))"

text \<open>
  \<open>from_row env r d\<close>: the record \<open>d\<close> carries the vendor cell of the ledger row \<open>r\<close> and
  the amount parsed from its amount cell.
\<close>

definition from_row :: "'f env \<Rightarrow> row \<Rightarrow> 'f vendor_dict \<Rightarrow> bool" where
  "from_row env r d =
     (r ''Vendor'' = Some (Vendor d) \<and>
      (case r ''Amount'' of Some (Some a) \<Rightarrow> parse_amount env a = Some (Amount d) | _ \<Rightarrow> False))"

text \<open>
  The references of the list \<open>l\<close> point into the store (always so in Python), and an
  environment whose model and search answer the same whatever happened before.
\<close>

definition valid_refs :: "'f state \<Rightarrow> nat \<Rightarrow> bool" where
  "valid_refs s l = list_all (\<lambda>a. a < length (dict_heap s)) (list_heap s ! l)"

definition deterministic :: "'f env \<Rightarrow> bool" where
  "deterministic env =
     ((\<forall>h h' p. llm_invoke env h p = llm_invoke env h' p) \<and>
      (\<forall>h h' q. search_run env h q = search_run env h' q))"

section \<open>Notions of the specification\<close>

text \<open>
  The amount string "with those separators stripped", in the words of the specification:
  every comma and every dollar sign removed.
\<close>

definition strip_separators :: "string \<Rightarrow> string" where
  "strip_separators a = filter (\<lambda>c. c \<noteq> CHR '','' \<and> c \<noteq> CHR ''$'') a"

text \<open>
  The shape that the specification expects of the opportunity text: at most 3 data rows,
  each of exactly 3 fields. A data row is a non-empty line; fields are separated by commas
  outside double quotes. The program has no such function: these definitions follow the
  specification's words and are compared with what the program writes.
\<close>

fun split_on :: "char \<Rightarrow> string \<Rightarrow> string list" where
  "split_on c [] = [[]]"
| "split_on c (x # xs) =
     (if x = c then [] # split_on c xs
      else (case split_on c xs of [] \<Rightarrow> [[x]] | p # ps \<Rightarrow> (x # p) # ps))"

fun csv_fields :: "bool \<Rightarrow> string \<Rightarrow> string list" where
  "csv_fields quoted [] = [[]]"
| "csv_fields quoted (c # cs) =
     (if c = CHR 0x22 then csv_fields (\<not> quoted) cs
      else if c = CHR '','' \<and> \<not> quoted then [] # csv_fields quoted cs
      else (case csv_fields quoted cs of [] \<Rightarrow> [[c]] | f # fs \<Rightarrow> (c # f) # fs))"

definition data_rows :: "string \<Rightarrow> string list" where
  "data_rows txt = filter (\<lambda>r. r \<noteq> []) (split_on CHR ''\<newline>'' txt)"

definition opportunities_well_formed :: "string \<Rightarrow> bool" where
  "opportunities_well_formed txt =
     (length (data_rows txt) \<le> 3 \<and>
      list_all (\<lambda>r. length (csv_fields False r) = 3) (data_rows txt))"

section \<open>Test doubles\<close>

text \<open>
  Concrete environments and states on which the theorems are instantiated. The model
  answers every prompt with one fixed text; the search fails at the call whose number is
  given; the clock is fixed; \<open>float\<close> is a table from the amount strings used here to the
  text \<^verbatim>\<open>str\<close> prints for the parsed number; \<open>strip\<close> and \<open>lower\<close> are the ASCII ones.
\<close>

definition stub_row :: "string \<Rightarrow> string \<Rightarrow> row" where
  "stub_row v a = (\<lambda>k. if k = ''Vendor'' then Some (Some v)
                        else if k = ''Amount'' then Some (Some a) else None)"

definition stub_float :: "string \<Rightarrow> string option" where
  "stub_float = map_of [(''1200.00'', ''1200.0''), (''500'', ''500.0''), (''75.5'', ''75.5'')]"

definition ascii_space :: "char \<Rightarrow> bool" where
  "ascii_space c = (c \<in> set [CHR '' '', CHR 0x09, CHR 0x0A, CHR 0x0B, CHR 0x0C, CHR 0x0D])"

definition ascii_strip :: "string \<Rightarrow> string" where
  "ascii_strip t = rev (dropWhile ascii_space (rev (dropWhile ascii_space t)))"

definition ascii_lower :: "string \<Rightarrow> string" where
  "ascii_lower t =
     map (\<lambda>c. case map_of (zip ''ABCDEFGHIJKLMNOPQRSTUVWXYZ'' ''abcdefghijklmnopqrstuvwxyz'') c of
                None \<Rightarrow> c | Some d \<Rightarrow> d) t"

fun is_search :: "event \<Rightarrow> bool" where
  "is_search (SearchRun q r) = True"
| "is_search ev = False"

definition stub_env :: "string \<Rightarrow> nat option \<Rightarrow> row list \<Rightarrow> string env" where
  "stub_env answer fail_at ledger =
     \<lparr>llm_invoke = (\<lambda>h p. Inr answer),
      search_run = (\<lambda>h q. if Some (length (filter is_search h)) = fail_at
                            then Inl ''timeout'' else Inr ''search results''),
      read_ledger = (\<lambda>h f. if f = ''vendors.csv'' then Inr ledger else Inl ''no such file''),
      strftime_now = (\<lambda>h fmt. if fmt = ''%Y%m%d_%H%M%S'' then ''20250102_030405''
                              else ''2025-01-02_03-04-05''),
      open_write = (\<lambda>h n. None),
      py_float = stub_float,
      float_str = (\<lambda>t. t),
      str_strip = ascii_strip,
      str_lower = ascii_lower\<rparr>"

definition x0 :: pipeline_dict where
  "x0 = \<lparr>input_file = Some ''vendors.csv'', processed_data = None,
         processed_data_with_actions = None, top_opportunities = None\<rparr>"

definition s0 :: "string state" where
  "s0 = \<lparr>dict_heap = [], list_heap = [], trace = []\<rparr>"

definition ledger1 :: "row list" where
  "ledger1 = [stub_row ''AWS'' ''$1,200.00'']"

definition ledger2 :: "row list" where
  "ledger2 = [stub_row ''AWS'' ''$1,200.00'', stub_row ''Zoom'' ''500'']"

definition ledger3 :: "row list" where
  "ledger3 = [stub_row ''AWS'' ''$1,200.00'', stub_row ''Zoom'' ''500'', stub_row ''Slack'' ''75.5'']"

definition stub_ok :: "string env" where
  "stub_ok = stub_env ''SaaS'' None ledger2"

definition stub_pizza :: "string env" where
  "stub_pizza = stub_env ''Pizza'' None ledger1"

definition stub_search_fails :: "string env" where
  "stub_search_fails = stub_env ''SaaS'' (Some 1) ledger3"

definition stub_shouting :: "string env" where
  "stub_shouting = stub_env (''  Consolidate: AWS '' @ [CHR 0x0A]) None ledger2"

definition four_rows :: string where
  "four_rows = ''Acme,terminate\<newline>Beta,optimize\<newline>Gamma,optimize\<newline>Delta,terminate''"

definition three_rows :: string where
  \<open>three_rows =
     ''"Acme Corp","consolidate: XYZ Inc","$250K potential savings, duplicate CRM tools"\<newline>'' @
     ''"Beta LLC","terminate","$180K savings, non-core legal service"\<newline>'' @
     ''"Gamma Inc","optimize","$90K via contract renegotiation"''\<close>

definition stub_four_rows :: "string env" where
  "stub_four_rows = stub_env four_rows None ledger2"

definition stub_three_rows :: "string env" where
  "stub_three_rows = stub_env three_rows None ledger2"

definition stub_empty :: "string env" where
  "stub_empty = stub_env ''SaaS'' None []"

definition s_empty_list :: "string state" where
  "s_empty_list = \<lparr>dict_heap = [], list_heap = [[]], trace = []\<rparr>"

definition s_enriched :: "string state" where
  "s_enriched =
     \<lparr>dict_heap = [\<lparr>Vendor = Some ''AWS'', Amount = ''1200.0'', Description = ''Cloud, compute'',
                     Category = ''Engineering'', Action = None\<rparr>,
                   \<lparr>Vendor = Some ''Zoom'', Amount = ''500.0'', Description = ''Video calls'',
                     Category = ''SaaS'', Action = None\<rparr>],
      list_heap = [[0, 1]], trace = []\<rparr>"

definition s_actioned :: "string state" where
  "s_actioned =
     \<lparr>dict_heap = [\<lparr>Vendor = Some ''AWS'', Amount = ''1200.0'', Description = ''Cloud, compute'',
                     Category = ''Engineering'', Action = Some ''optimize''\<rparr>,
                   \<lparr>Vendor = Some ''Zoom'', Amount = ''500.0'', Description = ''Video calls'',
                     Category = ''SaaS'', Action = Some ''terminate''\<rparr>],
      list_heap = [[0, 1]], trace = []\<rparr>"

section \<open>Properties of the stages\<close>

subsection \<open>Traces\<close>

lemma new_events_append: "trace s' = evs @ trace s \<Longrightarrow> new_events s s' = evs"
  by (simp add: new_events_def)

lemma llm_responses_append: "llm_responses c (evs2 @ evs1) = llm_responses c evs1 @ llm_responses c evs2"
  by (simp add: llm_responses_def)

lemma file_writes_append: "file_writes (evs2 @ evs1) = file_writes evs1 @ file_writes evs2"
  by (simp add: file_writes_def)

lemmas call_defs = call_llm_def call_search_def emit_def Let_def

lemma propagated_Inr: "propagated (Inr v) evs \<Longrightarrow> \<not> list_ex is_failed_call evs"
  by (simp add: propagated_def)

lemma propagated_Inr_iff: "propagated (Inr v) evs = (\<not> list_ex is_failed_call evs)"
  by (simp add: propagated_def)

lemma propagated_append:
  "\<not> list_ex is_failed_call evs1 \<Longrightarrow> propagated r evs2 \<Longrightarrow> propagated r (evs2 @ evs1)"
  by (auto simp: propagated_def)

subsection \<open>Enrichment\<close>

lemma py_replace_single: "py_replace t [c] [] = filter (\<lambda>x. x \<noteq> c) t"
proof (induction t)
  case Nil
  show ?case by (simp add: py_replace.simps)
next
  case (Cons x t)
  then show ?case by (subst py_replace.simps) simp
qed

lemma analyze_pipeline_Inr:
  assumes "analyze_pipeline env name s = (Inr a, s')"
  shows "dict_heap s' = dict_heap s \<and> list_heap s' = list_heap s \<and>
     (\<exists>evs. trace s' = evs @ trace s \<and> file_writes evs = [] \<and>
        llm_responses ClassificationChain evs = [category a] \<and>
        llm_responses RecommendationChain evs = [] \<and>
        llm_responses AnalysisChain evs = [])"
  using assms unfolding analyze_pipeline_def
  by (auto simp: call_defs llm_responses_def file_writes_def split: sum.splits prod.splits)

lemma analyze_pipeline_Inl:
  assumes "analyze_pipeline env name s = (Inl e, s')"
  shows "dict_heap s' = dict_heap s \<and> list_heap s' = list_heap s \<and> is_external e \<and>
     (\<exists>evs. trace s' = evs @ trace s \<and> file_writes evs = [] \<and> evs \<noteq> [] \<and> raised_by (hd evs) e)"
  using assms unfolding analyze_pipeline_def
  by (auto simp: call_defs llm_responses_def file_writes_def split: sum.splits prod.splits)

lemma analyze_vendor_Inr:
  assumes "analyze_vendor env l r s = (Inr u, s')"
  shows "\<exists>d evs. dict_heap s' = dict_heap s @ [d] \<and>
     list_heap s' = (list_heap s)[l := list_heap s ! l @ [length (dict_heap s)]] \<and>
     from_row env r d \<and>
     trace s' = evs @ trace s \<and> file_writes evs = [] \<and>
     llm_responses ClassificationChain evs = [Category d] \<and>
     llm_responses RecommendationChain evs = [] \<and>
     llm_responses AnalysisChain evs = []"
proof -
  from assms obtain name a amt res s1 where
    v: "r ''Vendor'' = Some name" and p: "analyze_pipeline env name s = (Inr res, s1)"
    and a: "r ''Amount'' = Some (Some a)" and f: "parse_amount env a = Some amt"
    and s': "s' = emit (Print (''classifiying vendor: '' @ py_str name @ '' - '' @
                 category res @ '' - '' @ service_description res))
               (list_append l (length (dict_heap s1))
                  (s1\<lparr>dict_heap := dict_heap s1 @
                     [\<lparr>Vendor = name, Amount = amt, Description = service_description res,
                       Category = category res, Action = None\<rparr>]\<rparr>))"
    unfolding analyze_vendor_def
    by (auto simp: alloc_dict_def Let_def split: option.splits sum.splits prod.splits)
  from analyze_pipeline_Inr [OF p] obtain evs where
    h: "dict_heap s1 = dict_heap s" "list_heap s1 = list_heap s" and
    t: "trace s1 = evs @ trace s" "file_writes evs = []"
       "llm_responses ClassificationChain evs = [category res]"
       "llm_responses RecommendationChain evs = []" "llm_responses AnalysisChain evs = []"
    by blast
  let ?d = "\<lparr>Vendor = name, Amount = amt, Description = service_description res,
             Category = category res, Action = None\<rparr>"
  let ?evs = "Print (''classifiying vendor: '' @ py_str name @ '' - '' @
                 category res @ '' - '' @ service_description res) # evs"
  have "dict_heap s' = dict_heap s @ [?d]"
    by (simp add: s' emit_def list_append_def h)
  moreover have "list_heap s' = (list_heap s)[l := list_heap s ! l @ [length (dict_heap s)]]"
    by (simp add: s' emit_def list_append_def h)
  moreover have "from_row env r ?d"
    by (simp add: from_row_def v a f)
  moreover have "trace s' = ?evs @ trace s"
    by (simp add: s' emit_def list_append_def t)
  moreover have "file_writes ?evs = []" "llm_responses ClassificationChain ?evs = [Category ?d]"
    "llm_responses RecommendationChain ?evs = []" "llm_responses AnalysisChain ?evs = []"
    using t by (simp_all add: file_writes_def llm_responses_def)
  ultimately show ?thesis by blast
qed

lemma analyze_vendor_Inl:
  assumes "analyze_vendor env l r s = (Inl e, s')"
  shows "dict_heap s' = dict_heap s \<and> list_heap s' = list_heap s \<and>
     (\<exists>evs. trace s' = evs @ trace s \<and> file_writes evs = [] \<and>
        (is_external e \<longrightarrow> evs \<noteq> [] \<and> raised_by (hd evs) e))"
  using assms unfolding analyze_vendor_def
  by (auto simp: alloc_dict_def Let_def file_writes_def
      split: option.splits sum.splits prod.splits dest!: analyze_pipeline_Inl analyze_pipeline_Inr)

lemma upt_shift2: "[n ..< n + length (d # ds)] = n # [Suc n ..< Suc n + length ds]"
  using upt_conv_Cons [of n "n + Suc (length ds)"] by simp

lemma analyze_loop_Inr:
  assumes "analyze_loop env l rows s = (Inr u, s')" and "l < length (list_heap s)"
  shows "\<exists>ds evs. dict_heap s' = dict_heap s @ ds \<and>
     list_heap s' = (list_heap s)[l := list_heap s ! l @
                        [length (dict_heap s) ..< length (dict_heap s) + length ds]] \<and>
     list_all2 (from_row env) rows ds \<and>
     trace s' = evs @ trace s \<and> file_writes evs = [] \<and>
     llm_responses ClassificationChain evs = map Category ds \<and>
     llm_responses RecommendationChain evs = [] \<and>
     llm_responses AnalysisChain evs = []"
  using assms
proof (induction rows arbitrary: s)
  case Nil
  then show ?case
    by (simp add: file_writes_def llm_responses_def)
next
  case (Cons r rows)
  from Cons.prems(1) obtain s1 where
    one: "analyze_vendor env l r s = (Inr (), s1)" and rest: "analyze_loop env l rows s1 = (Inr u, s')"
    by (auto split: sum.splits prod.splits)
  from analyze_vendor_Inr [OF one] obtain d evs1 where
    d: "dict_heap s1 = dict_heap s @ [d]"
       "list_heap s1 = (list_heap s)[l := list_heap s ! l @ [length (dict_heap s)]]"
       "from_row env r d" and
    t1: "trace s1 = evs1 @ trace s" "file_writes evs1 = []"
       "llm_responses ClassificationChain evs1 = [Category d]"
       "llm_responses RecommendationChain evs1 = []" "llm_responses AnalysisChain evs1 = []"
    by blast
  have l1: "l < length (list_heap s1)"
    using Cons.prems(2) by (simp add: d)
  from Cons.IH [OF rest l1] obtain ds evs2 where
    ds: "dict_heap s' = dict_heap s1 @ ds"
        "list_heap s' = (list_heap s1)[l := list_heap s1 ! l @
                           [length (dict_heap s1) ..< length (dict_heap s1) + length ds]]"
        "list_all2 (from_row env) rows ds" and
    t2: "trace s' = evs2 @ trace s1" "file_writes evs2 = []"
        "llm_responses ClassificationChain evs2 = map Category ds"
        "llm_responses RecommendationChain evs2 = []" "llm_responses AnalysisChain evs2 = []"
    by blast
  have "dict_heap s' = dict_heap s @ (d # ds)"
    by (simp add: ds d)
  moreover have "list_heap s' = (list_heap s)[l := list_heap s ! l @
                    [length (dict_heap s) ..< length (dict_heap s) + length (d # ds)]]"
  proof -
    have a: "length (dict_heap s1) = Suc (length (dict_heap s))" by (simp add: d)
    have b: "list_heap s1 ! l = list_heap s ! l @ [length (dict_heap s)]"
      using Cons.prems(2) by (simp add: d)
    have c: "(list_heap s1)[l := v] = (list_heap s)[l := v]" for v by (simp add: d)
    have "list_heap s' = (list_heap s)[l := (list_heap s ! l @ [length (dict_heap s)]) @
             [Suc (length (dict_heap s)) ..< Suc (length (dict_heap s)) + length ds]]"
      by (simp only: ds(2) a b c)
    then show ?thesis
      by (simp only: upt_shift2 append_assoc append_Cons append_Nil)
  qed
  moreover have "list_all2 (from_row env) (r # rows) (d # ds)"
    by (simp add: ds d)
  moreover have "trace s' = (evs2 @ evs1) @ trace s"
    by (simp add: t1 t2)
  moreover have "file_writes (evs2 @ evs1) = []"
    "llm_responses ClassificationChain (evs2 @ evs1) = map Category (d # ds)"
    "llm_responses RecommendationChain (evs2 @ evs1) = []"
    "llm_responses AnalysisChain (evs2 @ evs1) = []"
    by (simp_all add: file_writes_append llm_responses_append t1 t2)
  ultimately show ?case by blast
qed

lemma analyze_loop_Inl:
  assumes "analyze_loop env l rows s = (Inl e, s')"
  shows "\<exists>evs. trace s' = evs @ trace s \<and> file_writes evs = [] \<and>
        (is_external e \<longrightarrow> evs \<noteq> [] \<and> raised_by (hd evs) e)"
  using assms
proof (induction rows arbitrary: s)
  case Nil
  then show ?case by simp
next
  case (Cons r rows)
  show ?case
  proof (cases "analyze_vendor env l r s")
    case (Pair res s1)
    show ?thesis
    proof (cases res)
      case (Inl e1)
      with Pair Cons.prems have "analyze_vendor env l r s = (Inl e, s')" by simp
      from analyze_vendor_Inl [OF this] show ?thesis by blast
    next
      case (Inr u)
      with Pair Cons.prems have rest: "analyze_loop env l rows s1 = (Inl e, s')" by simp
      from Pair Inr have "analyze_vendor env l r s = (Inr u, s1)" by simp
      from analyze_vendor_Inr [OF this] obtain evs1 where
        t1: "trace s1 = evs1 @ trace s" "file_writes evs1 = []" by blast
      from Cons.IH [OF rest] obtain evs2 where
        t2: "trace s' = evs2 @ trace s1" "file_writes evs2 = []"
            "is_external e \<longrightarrow> evs2 \<noteq> [] \<and> raised_by (hd evs2) e" by blast
      have "trace s' = (evs2 @ evs1) @ trace s" by (simp add: t1 t2)
      moreover have "file_writes (evs2 @ evs1) = []" by (simp add: file_writes_append t1 t2)
      moreover have "is_external e \<longrightarrow> evs2 @ evs1 \<noteq> [] \<and> raised_by (hd (evs2 @ evs1)) e"
        using t2(3) by simp
      ultimately show ?thesis by blast
    qed
  qed
qed

lemma analyze_vendors_Inr:
  assumes "analyze_vendors env f s = (Inr l, s')"
  shows "\<exists>rows ds evs. read_ledger env (trace s) f = Inr rows \<and>
     l = length (list_heap s) \<and>
     dict_heap s' = dict_heap s @ ds \<and>
     list_heap s' = list_heap s @ [[length (dict_heap s) ..< length (dict_heap s) + length ds]] \<and>
     list_all2 (from_row env) rows ds \<and>
     trace s' = evs @ trace s \<and> file_writes evs = [] \<and>
     llm_responses ClassificationChain evs = map Category ds \<and>
     llm_responses RecommendationChain evs = [] \<and>
     llm_responses AnalysisChain evs = []"
proof -
  let ?s0 = "(emit (FileRead f) s)\<lparr>list_heap := list_heap s @ [[]]\<rparr>"
  from assms obtain rows u where
    rd: "read_ledger env (trace s) f = Inr rows" and l: "l = length (list_heap s)" and
    lp: "analyze_loop env l rows ?s0 = (Inr u, s')"
    unfolding analyze_vendors_def
    by (auto simp: alloc_list_def emit_def split: sum.splits prod.splits)
  have "l < length (list_heap ?s0)" by (simp add: l emit_def)
  from analyze_loop_Inr [OF lp this] obtain ds evs where
    ds: "dict_heap s' = dict_heap ?s0 @ ds"
        "list_heap s' = (list_heap ?s0)[l := list_heap ?s0 ! l @
                           [length (dict_heap ?s0) ..< length (dict_heap ?s0) + length ds]]"
        "list_all2 (from_row env) rows ds" and
    t: "trace s' = evs @ trace ?s0" "file_writes evs = []"
        "llm_responses ClassificationChain evs = map Category ds"
        "llm_responses RecommendationChain evs = []" "llm_responses AnalysisChain evs = []"
    by blast
  have "dict_heap s' = dict_heap s @ ds" using ds(1) by (simp add: emit_def)
  moreover have "list_heap s' = list_heap s @ [[length (dict_heap s) ..< length (dict_heap s) + length ds]]"
    using ds(2) by (simp add: emit_def l)
  moreover have "trace s' = (evs @ [FileRead f]) @ trace s" using t(1) by (simp add: emit_def)
  moreover have "file_writes (evs @ [FileRead f]) = []"
    "llm_responses ClassificationChain (evs @ [FileRead f]) = map Category ds"
    "llm_responses RecommendationChain (evs @ [FileRead f]) = []"
    "llm_responses AnalysisChain (evs @ [FileRead f]) = []"
    using t by (simp_all add: file_writes_def llm_responses_def)
  ultimately show ?thesis using rd l ds(3) by blast
qed

lemma analyze_vendors_Inl:
  assumes "analyze_vendors env f s = (Inl e, s')"
  shows "\<exists>evs. trace s' = evs @ trace s \<and> file_writes evs = [] \<and>
        (is_external e \<longrightarrow> evs \<noteq> [] \<and> raised_by (hd evs) e)"
proof (cases "read_ledger env (trace s) f")
  case (Inl m)
  with assms have "e = IOError m" "s' = emit (FileRead f) s"
    by (auto simp: analyze_vendors_def)
  then have "trace s' = [FileRead f] @ trace s \<and> file_writes [FileRead f] = [] \<and>
     (is_external e \<longrightarrow> [FileRead f] \<noteq> [] \<and> raised_by (hd [FileRead f]) e)"
    by (simp add: emit_def file_writes_def)
  then show ?thesis by blast
next
  case (Inr rows)
  let ?s0 = "(emit (FileRead f) s)\<lparr>list_heap := list_heap s @ [[]]\<rparr>"
  from assms Inr have "analyze_loop env (length (list_heap s)) rows ?s0 = (Inl e, s')"
    by (auto simp: analyze_vendors_def alloc_list_def emit_def split: sum.splits prod.splits)
  from analyze_loop_Inl [OF this] obtain evs where
    t: "trace s' = evs @ trace ?s0" "file_writes evs = []"
       "is_external e \<longrightarrow> evs \<noteq> [] \<and> raised_by (hd evs) e" by blast
  have "trace s' = (evs @ [FileRead f]) @ trace s" using t(1) by (simp add: emit_def)
  moreover have "file_writes (evs @ [FileRead f]) = []"
    using t(2) by (simp add: file_writes_def)
  moreover have "is_external e \<longrightarrow> evs @ [FileRead f] \<noteq> [] \<and> raised_by (hd (evs @ [FileRead f])) e"
    using t(3) by simp
  ultimately show ?thesis by blast
qed

lemma analyze_pipeline_deterministic:
  assumes "deterministic env"
  shows "fst (analyze_pipeline env name s) = fst (analyze_pipeline env name s')"
proof -
  define g where "g = llm_invoke env []"
  define k where "k = search_run env []"
  have g: "llm_invoke env h = g" for h
    using assms by (auto simp: deterministic_def g_def fun_eq_iff)
  have k: "search_run env h = k" for h
    using assms by (auto simp: deterministic_def k_def fun_eq_iff)
  show ?thesis
    unfolding analyze_pipeline_def call_llm_def call_search_def Let_def g k
    by (simp split: sum.splits)
qed

lemma analyze_vendor_Inr_record:
  assumes "analyze_vendor env l r s = (Inr u, s')"
  shows "\<exists>name a amt res s1.
     r ''Vendor'' = Some name \<and> analyze_pipeline env name s = (Inr res, s1) \<and>
     r ''Amount'' = Some (Some a) \<and> parse_amount env a = Some amt \<and>
     dict_heap s' = dict_heap s @
       [\<lparr>Vendor = name, Amount = amt, Description = service_description res,
         Category = category res, Action = None\<rparr>]"
proof -
  from assms obtain name a amt res s1 where
    v: "r ''Vendor'' = Some name" and p: "analyze_pipeline env name s = (Inr res, s1)"
    and a: "r ''Amount'' = Some (Some a)" and f: "parse_amount env a = Some amt"
    and s': "dict_heap s' = dict_heap s1 @
                     [\<lparr>Vendor = name, Amount = amt, Description = service_description res,
                       Category = category res, Action = None\<rparr>]"
    unfolding analyze_vendor_def
    by (auto simp: alloc_dict_def list_append_def emit_def Let_def
        split: option.splits sum.splits prod.splits)
  from analyze_pipeline_Inr [OF p] have "dict_heap s1 = dict_heap s" by blast
  with v p a f s' show ?thesis by auto
qed

lemma analyze_pipeline_propagates:
  assumes "analyze_pipeline env name s = (r, s')"
  shows "\<exists>evs. trace s' = evs @ trace s \<and> propagated r evs"
  using assms unfolding analyze_pipeline_def propagated_def
  by (auto simp: call_defs split: sum.splits prod.splits)

lemma analyze_vendor_propagates:
  assumes "analyze_vendor env l row s = (r, s')"
  shows "\<exists>evs. trace s' = evs @ trace s \<and> propagated r evs"
proof (cases "row ''Vendor''")
  case None
  with assms have "s' = s" "r = Inl (KeyError ''Vendor'')"
    by (auto simp: analyze_vendor_def)
  then have "trace s' = [] @ trace s \<and> propagated r []"
    by (simp add: propagated_def)
  then show ?thesis by blast
next
  case (Some name)
  obtain r1 s1 where p: "analyze_pipeline env name s = (r1, s1)"
    by (cases "analyze_pipeline env name s")
  from analyze_pipeline_propagates [OF p] obtain evs1 where
    t1: "trace s1 = evs1 @ trace s" and q1: "propagated r1 evs1" by blast
  show ?thesis
  proof (cases r1)
    case (Inl e)
    with assms Some p have "r = Inl e" "s' = s1"
      by (auto simp: analyze_vendor_def)
    with t1 q1 Inl show ?thesis by (auto simp: propagated_def)
  next
    case (Inr res)
    from q1 Inr have quiet: "\<not> list_ex is_failed_call evs1" by (simp add: propagated_def)
    from assms Some p Inr have
      "(s' = s1 \<and> (\<exists>e. r = Inl e)) \<or>
       (\<exists>t. trace s' = Print t # trace s1)"
      unfolding analyze_vendor_def
      by (auto simp: alloc_dict_def list_append_def emit_def Let_def
          split: option.splits prod.splits)
    then show ?thesis
    proof
      assume "s' = s1 \<and> (\<exists>e. r = Inl e)"
      with t1 quiet have "trace s' = evs1 @ trace s \<and> propagated r evs1"
        by (simp add: propagated_def)
      then show ?thesis by blast
    next
      assume "\<exists>t. trace s' = Print t # trace s1"
      then obtain t where "trace s' = Print t # trace s1" by blast
      with t1 quiet have "trace s' = (Print t # evs1) @ trace s \<and> propagated r (Print t # evs1)"
        by (simp add: propagated_def)
      then show ?thesis by blast
    qed
  qed
qed

lemma analyze_loop_propagates:
  assumes "analyze_loop env l rows s = (r, s')"
  shows "\<exists>evs. trace s' = evs @ trace s \<and> propagated r evs"
  using assms
proof (induction rows arbitrary: s)
  case Nil
  then have "trace s' = [] @ trace s \<and> propagated r []"
    by (simp add: propagated_def)
  then show ?case by blast
next
  case (Cons row rows)
  obtain r1 s1 where one: "analyze_vendor env l row s = (r1, s1)"
    by (cases "analyze_vendor env l row s")
  from analyze_vendor_propagates [OF one] obtain evs1 where
    t1: "trace s1 = evs1 @ trace s" and q1: "propagated r1 evs1" by blast
  show ?case
  proof (cases r1)
    case (Inl e)
    with Cons.prems one have "r = Inl e" "s' = s1" by simp_all
    with t1 q1 Inl show ?thesis by auto
  next
    case (Inr u)
    with Cons.prems one have rest: "analyze_loop env l rows s1 = (r, s')" by simp
    from Cons.IH [OF rest] obtain evs2 where
      t2: "trace s' = evs2 @ trace s1" and q2: "propagated r evs2" by blast
    from q1 Inr have "\<not> list_ex is_failed_call evs1" by (simp add: propagated_def)
    from propagated_append [OF this q2] t1 t2
    have "trace s' = (evs2 @ evs1) @ trace s \<and> propagated r (evs2 @ evs1)" by simp
    then show ?thesis by blast
  qed
qed

lemma analyze_vendors_propagates:
  assumes "analyze_vendors env f s = (r, s')"
  shows "\<exists>evs. trace s' = evs @ trace s \<and> propagated r evs"
proof (cases "read_ledger env (trace s) f")
  case (Inl m)
  with assms have "r = Inl (IOError m)" "s' = emit (FileRead f) s"
    by (auto simp: analyze_vendors_def)
  then have "trace s' = [FileRead f] @ trace s \<and> propagated r [FileRead f]"
    by (simp add: emit_def propagated_def)
  then show ?thesis by blast
next
  case (Inr rows)
  let ?s0 = "(emit (FileRead f) s)\<lparr>list_heap := list_heap s @ [[]]\<rparr>"
  obtain r0 s2 where lp: "analyze_loop env (length (list_heap s)) rows ?s0 = (r0, s2)"
    by (cases "analyze_loop env (length (list_heap s)) rows ?s0")
  with assms Inr have s': "s' = s2" and r: "r = (case r0 of Inl e \<Rightarrow> Inl e | Inr u \<Rightarrow> Inr (length (list_heap s)))"
    by (auto simp: analyze_vendors_def alloc_list_def emit_def split: sum.splits)
  from analyze_loop_propagates [OF lp] obtain evs where
    t: "trace s2 = evs @ trace ?s0" and q: "propagated r0 evs" by blast
  have "propagated r evs" using q r by (auto simp: propagated_def split: sum.splits)
  then have "propagated r (evs @ [FileRead f])" by (auto simp: propagated_def)
  moreover have "trace s' = (evs @ [FileRead f]) @ trace s"
    using t s' by (simp add: emit_def)
  ultimately show ?thesis by blast
qed

subsection \<open>Recommendation\<close>

lemma map_core_update: "map core (xs[a := (xs ! a)\<lparr>Action := x\<rparr>]) = map core xs"
proof (cases "a < length xs")
  case True
  then show ?thesis
    by (intro nth_equalityI) (auto simp: nth_list_update core_def)
next
  case False
  then have "length xs \<le> a" by simp
  then show ?thesis by (simp only: list_update_beyond)
qed

lemma recommend_loop_frame:
  assumes "recommend_loop env summary as s = (r, s')"
  shows "list_heap s' = list_heap s \<and> map core (dict_heap s') = map core (dict_heap s) \<and>
     (\<forall>i. i \<notin> set as \<longrightarrow> dict_heap s' ! i = dict_heap s ! i) \<and>
     (\<exists>evs. trace s' = evs @ trace s \<and> file_writes evs = [] \<and>
        llm_responses ClassificationChain evs = [] \<and>
        llm_responses AnalysisChain evs = [] \<and>
        (\<forall>e. r = Inl e \<longrightarrow> is_external e \<and> evs \<noteq> [] \<and> raised_by (hd evs) e))"
  using assms
proof (induction as arbitrary: s)
  case Nil
  then show ?case by (auto simp: file_writes_def llm_responses_def)
next
  case (Cons a as)
  let ?v = "dict_heap s ! a"
  let ?p = "recommendation_prompt summary (py_str (Vendor ?v)) (float_str env (Amount ?v))
              (Category ?v) (Description ?v)"
  let ?ev = "LlmInvoke RecommendationChain ?p (llm_invoke env (trace s) ?p)"
  show ?case
  proof (cases "llm_invoke env (trace s) ?p")
    case (Inl m)
    with Cons.prems have "r = Inl (GenerationError m)" "s' = emit ?ev s"
      by (auto simp: call_llm_def Let_def)
    then have "list_heap s' = list_heap s" "dict_heap s' = dict_heap s"
      "trace s' = [?ev] @ trace s" "file_writes [?ev] = []"
      "llm_responses ClassificationChain [?ev] = []" "llm_responses AnalysisChain [?ev] = []"
      "\<forall>e. r = Inl e \<longrightarrow> is_external e \<and> [?ev] \<noteq> [] \<and> raised_by (hd [?ev]) e"
      using Inl by (simp_all add: emit_def file_writes_def llm_responses_def)
    then show ?thesis by metis
  next
    case (Inr content)
    let ?rec = "str_lower env (str_strip env content)"
    let ?s2 = "(emit ?ev s)\<lparr>dict_heap := (dict_heap s)[a := ?v\<lparr>Action := Some ?rec\<rparr>]\<rparr>"
    let ?pr = "Print (''recommending action for vendor: '' @
                 py_str (Vendor (dict_heap ?s2 ! a)) @ '' - '' @ ?rec)"
    from Cons.prems Inr have rest: "recommend_loop env summary as (emit ?pr ?s2) = (r, s')"
      by (simp add: call_llm_def Let_def emit_def)
    from Cons.IH [OF rest] obtain evs where
      h: "list_heap s' = list_heap (emit ?pr ?s2)"
         "map core (dict_heap s') = map core (dict_heap (emit ?pr ?s2))"
         "\<forall>i. i \<notin> set as \<longrightarrow> dict_heap s' ! i = dict_heap (emit ?pr ?s2) ! i" and
      t: "trace s' = evs @ trace (emit ?pr ?s2)" "file_writes evs = []"
         "llm_responses ClassificationChain evs = []" "llm_responses AnalysisChain evs = []"
         "\<forall>e. r = Inl e \<longrightarrow> is_external e \<and> evs \<noteq> [] \<and> raised_by (hd evs) e"
      by blast
    have "list_heap s' = list_heap s" using h(1) by (simp add: emit_def)
    moreover have "map core (dict_heap s') = map core (dict_heap s)"
      using h(2) by (simp add: emit_def map_core_update)
    moreover have "\<forall>i. i \<notin> set (a # as) \<longrightarrow> dict_heap s' ! i = dict_heap s ! i"
      using h(3) by (simp add: emit_def)
    moreover have "trace s' = (evs @ [?pr, ?ev]) @ trace s"
      using t(1) by (simp add: emit_def)
    moreover have "file_writes (evs @ [?pr, ?ev]) = []"
      "llm_responses ClassificationChain (evs @ [?pr, ?ev]) = []"
      "llm_responses AnalysisChain (evs @ [?pr, ?ev]) = []"
      using t Inr by (simp_all add: file_writes_def llm_responses_def)
    moreover have "\<forall>e. r = Inl e \<longrightarrow> is_external e \<and> evs @ [?pr, ?ev] \<noteq> [] \<and>
                     raised_by (hd (evs @ [?pr, ?ev])) e"
      using t(5) by simp
    ultimately show ?thesis by blast
  qed
qed

lemma recommend_loop_Inr:
  assumes "recommend_loop env summary as s = (Inr u, s')"
    and "distinct as" and "\<forall>a \<in> set as. a < length (dict_heap s)"
  shows "\<exists>evs. trace s' = evs @ trace s \<and>
     map (\<lambda>a. Action (dict_heap s' ! a)) as =
       map (normalise env) (llm_responses RecommendationChain evs)"
  using assms
proof (induction as arbitrary: s)
  case Nil
  then show ?case by (simp add: llm_responses_def)
next
  case (Cons a as)
  let ?v = "dict_heap s ! a"
  let ?p = "recommendation_prompt summary (py_str (Vendor ?v)) (float_str env (Amount ?v))
              (Category ?v) (Description ?v)"
  from Cons.prems(1) obtain content where
    Inr: "llm_invoke env (trace s) ?p = Inr content"
    by (cases "llm_invoke env (trace s) ?p") (auto simp: call_llm_def Let_def)
  let ?ev = "LlmInvoke RecommendationChain ?p (Inr content)"
  let ?rec = "str_lower env (str_strip env content)"
  let ?s2 = "(emit ?ev s)\<lparr>dict_heap := (dict_heap s)[a := ?v\<lparr>Action := Some ?rec\<rparr>]\<rparr>"
  let ?pr = "Print (''recommending action for vendor: '' @
               py_str (Vendor (dict_heap ?s2 ! a)) @ '' - '' @ ?rec)"
  from Cons.prems(1) Inr have rest: "recommend_loop env summary as (emit ?pr ?s2) = (Inr u, s')"
    by (simp add: call_llm_def Let_def emit_def)
  have d: "distinct as" and v: "\<forall>a \<in> set as. a < length (dict_heap (emit ?pr ?s2))"
    using Cons.prems(2,3) by (simp_all add: emit_def)
  from Cons.IH [OF rest d v] obtain evs where
    t: "trace s' = evs @ trace (emit ?pr ?s2)"
       "map (\<lambda>a. Action (dict_heap s' ! a)) as =
          map (normalise env) (llm_responses RecommendationChain evs)"
    by blast
  have "a \<notin> set as" using Cons.prems(2) by simp
  with recommend_loop_frame [OF rest] have "dict_heap s' ! a = dict_heap (emit ?pr ?s2) ! a"
    by blast
  then have act: "Action (dict_heap s' ! a) = normalise env content"
    using Cons.prems(3) by (simp add: emit_def normalise_def)
  have "trace s' = (evs @ [?pr, ?ev]) @ trace s"
    using t(1) by (simp add: emit_def)
  moreover have "map (\<lambda>a. Action (dict_heap s' ! a)) (a # as) =
     map (normalise env) (llm_responses RecommendationChain (evs @ [?pr, ?ev]))"
    using t(2) act by (simp add: llm_responses_def)
  ultimately show ?case by blast
qed

lemma from_row_core: "core d' = core d \<Longrightarrow> from_row env r d' = from_row env r d"
  by (auto simp: from_row_def core_def split: option.splits)

lemma recommend_actions_frame:
  assumes "recommend_actions env l s = (r, s')"
  shows "list_heap s' = list_heap s \<and> map core (dict_heap s') = map core (dict_heap s) \<and>
     (\<forall>l'. r = Inr l' \<longrightarrow> l' = l) \<and>
     (\<exists>evs. trace s' = evs @ trace s \<and> file_writes evs = [] \<and>
        llm_responses ClassificationChain evs = [] \<and>
        llm_responses AnalysisChain evs = [] \<and>
        (\<forall>e. r = Inl e \<longrightarrow> is_external e \<and> evs \<noteq> [] \<and> raised_by (hd evs) e))"
proof -
  let ?sum = "py_join ''\<newline>'' (map (vendor_summary_line env) (records_of s l))"
  obtain r0 where lp: "recommend_loop env ?sum (list_heap s ! l) s = (r0, s')"
    and r: "r = (case r0 of Inl e \<Rightarrow> Inl e | Inr u \<Rightarrow> Inr l)"
    using assms unfolding recommend_actions_def Let_def
    by (cases "recommend_loop env ?sum (list_heap s ! l) s") (auto split: sum.splits)
  from recommend_loop_frame [OF lp] obtain evs where
    h: "list_heap s' = list_heap s" "map core (dict_heap s') = map core (dict_heap s)" and
    t: "trace s' = evs @ trace s" "file_writes evs = []"
       "llm_responses ClassificationChain evs = []" "llm_responses AnalysisChain evs = []"
       "\<forall>e. r0 = Inl e \<longrightarrow> is_external e \<and> evs \<noteq> [] \<and> raised_by (hd evs) e"
    by blast
  have "\<forall>l'. r = Inr l' \<longrightarrow> l' = l" using r by (auto split: sum.splits)
  moreover have "\<forall>e. r = Inl e \<longrightarrow> is_external e \<and> evs \<noteq> [] \<and> raised_by (hd evs) e"
    using r t(5) by (auto split: sum.splits)
  ultimately show ?thesis using h t(1-4) by blast
qed

lemma recommend_actions_Inr:
  assumes "recommend_actions env l s = (Inr l', s')"
    and "distinct (list_heap s ! l)" and "\<forall>a \<in> set (list_heap s ! l). a < length (dict_heap s)"
  shows "\<exists>evs. trace s' = evs @ trace s \<and>
     map Action (records_of s' l) = map (normalise env) (llm_responses RecommendationChain evs)"
proof -
  let ?sum = "py_join ''\<newline>'' (map (vendor_summary_line env) (records_of s l))"
  obtain u where lp: "recommend_loop env ?sum (list_heap s ! l) s = (Inr u, s')"
    using assms(1) unfolding recommend_actions_def Let_def
    by (cases "recommend_loop env ?sum (list_heap s ! l) s") (auto split: sum.splits)
  from recommend_loop_frame [OF lp] have "list_heap s' = list_heap s" by blast
  then have "map Action (records_of s' l) = map (\<lambda>a. Action (dict_heap s' ! a)) (list_heap s ! l)"
    by (simp add: records_of_def)
  with recommend_loop_Inr [OF lp assms(2,3)] show ?thesis by auto
qed

lemma records_of_core:
  assumes "list_heap s' = list_heap s" and "map core (dict_heap s') = map core (dict_heap s)"
    and "\<forall>a \<in> set (list_heap s ! l). a < length (dict_heap s)"
  shows "map core (records_of s' l) = map core (records_of s l)"
proof -
  have len: "length (dict_heap s') = length (dict_heap s)"
    using assms(2) by (metis length_map)
  have "core (dict_heap s' ! a) = core (dict_heap s ! a)" if "a < length (dict_heap s)" for a
    using that assms(2) len by (metis nth_map)
  then show ?thesis
    using assms(1,3) by (simp add: records_of_def)
qed

lemma recommend_loop_Inl_kind:
  "recommend_loop env summary as s = (Inl e, s') \<Longrightarrow> \<exists>m. e = GenerationError m"
proof (induction as arbitrary: s)
  case Nil
  then show ?case by simp
next
  case (Cons a as)
  then show ?case
    by (auto simp: call_llm_def Let_def split: sum.splits)
qed

lemma recommend_actions_Inl_kind:
  assumes "recommend_actions env l s = (Inl e, s')"
  shows "\<exists>m. e = GenerationError m"
proof -
  let ?sum = "py_join ''\<newline>'' (map (vendor_summary_line env) (records_of s l))"
  have "recommend_loop env ?sum (list_heap s ! l) s = (Inl e, s')"
    using assms unfolding recommend_actions_def Let_def
    by (cases "recommend_loop env ?sum (list_heap s ! l) s") (auto split: sum.splits)
  then show ?thesis by (rule recommend_loop_Inl_kind)
qed

lemma recommend_loop_propagates:
  assumes "recommend_loop env summary as s = (r, s')"
  shows "\<exists>evs. trace s' = evs @ trace s \<and> propagated r evs"
  using assms
proof (induction as arbitrary: s)
  case Nil
  then have "trace s' = [] @ trace s \<and> propagated r []"
    by (simp add: propagated_def)
  then show ?case by blast
next
  case (Cons a as)
  let ?v = "dict_heap s ! a"
  let ?p = "recommendation_prompt summary (py_str (Vendor ?v)) (float_str env (Amount ?v))
              (Category ?v) (Description ?v)"
  show ?case
  proof (cases "llm_invoke env (trace s) ?p")
    case (Inl m)
    let ?ev = "LlmInvoke RecommendationChain ?p (Inl m)"
    from Cons.prems Inl have "r = Inl (GenerationError m)" "s' = emit ?ev s"
      by (auto simp: call_llm_def Let_def)
    then have "trace s' = [?ev] @ trace s \<and> propagated r [?ev]"
      by (simp add: emit_def propagated_def)
    then show ?thesis by blast
  next
    case (Inr content)
    let ?ev = "LlmInvoke RecommendationChain ?p (Inr content)"
    let ?rec = "str_lower env (str_strip env content)"
    let ?s2 = "(emit ?ev s)\<lparr>dict_heap := (dict_heap s)[a := ?v\<lparr>Action := Some ?rec\<rparr>]\<rparr>"
    let ?pr = "Print (''recommending action for vendor: '' @
                 py_str (Vendor (dict_heap ?s2 ! a)) @ '' - '' @ ?rec)"
    from Cons.prems Inr have rest: "recommend_loop env summary as (emit ?pr ?s2) = (r, s')"
      by (simp add: call_llm_def Let_def emit_def)
    from Cons.IH [OF rest] obtain evs where
      t: "trace s' = evs @ trace (emit ?pr ?s2)" and q: "propagated r evs" by blast
    have "trace s' = (evs @ [?pr, ?ev]) @ trace s" using t by (simp add: emit_def)
    moreover have "propagated r (evs @ [?pr, ?ev])"
      using q by (auto simp: propagated_def)
    ultimately show ?thesis by blast
  qed
qed

lemma recommend_actions_propagates:
  assumes "recommend_actions env l s = (r, s')"
  shows "\<exists>evs. trace s' = evs @ trace s \<and> propagated r evs"
proof -
  let ?sum = "py_join ''\<newline>'' (map (vendor_summary_line env) (records_of s l))"
  obtain r0 where lp: "recommend_loop env ?sum (list_heap s ! l) s = (r0, s')"
    and r: "r = (case r0 of Inl e \<Rightarrow> Inl e | Inr u \<Rightarrow> Inr l)"
    using assms unfolding recommend_actions_def Let_def
    by (cases "recommend_loop env ?sum (list_heap s ! l) s") (auto split: sum.splits)
  from recommend_loop_propagates [OF lp] obtain evs where
    t: "trace s' = evs @ trace s" and q: "propagated r0 evs" by blast
  have "propagated r evs" using q r by (auto simp: propagated_def split: sum.splits)
  with t show ?thesis by blast
qed

subsection \<open>Opportunities and persistence\<close>

lemma write_file_cases:
  assumes "write_file env name content s = (r, s')"
  shows "(\<exists>m. r = Inl (IOError m) \<and> s' = s) \<or> (r = Inr () \<and> s' = emit (FileWrite name content) s)"
  using assms by (auto simp: write_file_def split: option.splits)

lemma identify_Inr:
  assumes "identify_top_opportunities env l s = (Inr opp, s')"
  shows "dict_heap s' = dict_heap s \<and> list_heap s' = list_heap s \<and>
     (\<exists>name p. trace s' = [FileWrite name opp, LlmInvoke AnalysisChain p (Inr opp),
                           Print ''identifying opportunities''] @ trace s)"
  using assms unfolding identify_top_opportunities_def
  by (auto simp: call_defs write_file_def split: sum.splits prod.splits option.splits)

lemma vendor_action_lines_Inl: "vendor_action_lines env vs = Inl e \<Longrightarrow> e = KeyError ''Action''"
  by (induction vs) (auto split: option.splits sum.splits)

lemma identify_Inl:
  assumes "identify_top_opportunities env l s = (Inl e, s')"
  shows "dict_heap s' = dict_heap s \<and> list_heap s' = list_heap s \<and>
     (\<exists>evs. trace s' = evs @ trace s \<and> file_writes evs = [] \<and>
        (is_external e \<longrightarrow> evs \<noteq> [] \<and> raised_by (hd evs) e))"
  using assms unfolding identify_top_opportunities_def
  by (auto simp: call_defs write_file_def file_writes_def
      split: sum.splits prod.splits option.splits dest: vendor_action_lines_Inl)

lemma save_to_csv_Inr:
  assumes "save_to_csv env l s = (Inr msg, s')"
  shows "dict_heap s' = dict_heap s \<and> list_heap s' = list_heap s \<and>
     (\<exists>ts. msg = ''Data saved to '' @ ''results_'' @ ts @ ''.csv'' \<and>
        trace s' = FileWrite (''results_'' @ ts @ ''.csv'')
                     (csv_text (fieldnames # map (dict_to_list env) (records_of s l))) # trace s)"
proof -
  let ?ts = "strftime_now env (trace s) ''%Y%m%d_%H%M%S''"
  let ?name = "''results_'' @ ?ts @ ''.csv''"
  let ?content = "csv_text (fieldnames # map (dict_to_list env) (records_of s l))"
  obtain r where w: "write_file env ?name ?content s = (r, s')"
    and m: "r = Inr () \<and> msg = ''Data saved to '' @ ?name"
    using assms unfolding save_to_csv_def Let_def
    by (cases "write_file env ?name ?content s") (auto split: sum.splits)
  from write_file_cases [OF w] m have s': "s' = emit (FileWrite ?name ?content) s"
    by auto
  have "dict_heap s' = dict_heap s" "list_heap s' = list_heap s"
    "trace s' = FileWrite ?name ?content # trace s"
    by (simp_all add: s' emit_def)
  with m show ?thesis by blast
qed

lemma save_to_csv_Inl:
  assumes "save_to_csv env l s = (Inl e, s')"
  shows "s' = s \<and> \<not> is_external e"
proof -
  let ?ts = "strftime_now env (trace s) ''%Y%m%d_%H%M%S''"
  let ?name = "''results_'' @ ?ts @ ''.csv''"
  let ?content = "csv_text (fieldnames # map (dict_to_list env) (records_of s l))"
  have w: "write_file env ?name ?content s = (Inl e, s')"
    using assms unfolding save_to_csv_def Let_def
    by (cases "write_file env ?name ?content s") (auto split: sum.splits)
  from write_file_cases [OF w] show ?thesis by auto
qed

lemma identify_propagates:
  assumes "identify_top_opportunities env l s = (r, s')"
  shows "\<exists>evs. trace s' = evs @ trace s \<and> propagated r evs"
  using assms unfolding identify_top_opportunities_def propagated_def
  by (auto simp: call_defs write_file_def split: sum.splits prod.splits option.splits)

lemma save_to_csv_propagates:
  assumes "save_to_csv env l s = (r, s')"
  shows "\<exists>evs. trace s' = evs @ trace s \<and> propagated r evs"
proof -
  let ?ts = "strftime_now env (trace s) ''%Y%m%d_%H%M%S''"
  let ?name = "''results_'' @ ?ts @ ''.csv''"
  let ?content = "csv_text (fieldnames # map (dict_to_list env) (records_of s l))"
  obtain r0 where w: "write_file env ?name ?content s = (r0, s')"
    using assms unfolding save_to_csv_def Let_def
    by (cases "write_file env ?name ?content s") (auto split: sum.splits)
  from write_file_cases [OF w] have
    "trace s' = [] @ trace s \<or> trace s' = [FileWrite ?name ?content] @ trace s"
    by (auto simp: emit_def)
  moreover have "propagated r []" "propagated r [FileWrite ?name ?content]"
    by (simp_all add: propagated_def)
  ultimately show ?thesis by metis
qed

lemma csv_text_rows:
  "csv_text (fieldnames # map (dict_to_list env) recs) =
     csv_writerow [''Vendor'', ''Amount'', ''Description'', ''Category'', ''Action''] @
     concat (map (\<lambda>v. csv_writerow
                     [case Vendor v of None \<Rightarrow> [] | Some n \<Rightarrow> n,
                      float_str env (Amount v), Description v, Category v,
                      case Action v of None \<Rightarrow> [] | Some act \<Rightarrow> act])
                   recs)"
  by (simp add: csv_text_def fieldnames_def dict_to_list_def comp_def)

lemma csv_header_line:
  "csv_writerow [''Vendor'', ''Amount'', ''Description'', ''Category'', ''Action''] =
     ''Vendor,Amount,Description,Category,Action'' @ [CHR 0x0D, CHR 0x0A]"
  by (simp add: csv_writerow_def csv_field_def csv_special_def)

lemma rows_with_actions:
  assumes "map Action recs = map (normalise env) answers"
  shows "map (\<lambda>v. csv_writerow
                     [case Vendor v of None \<Rightarrow> [] | Some n \<Rightarrow> n,
                      float_str env (Amount v), Description v, Category v,
                      case Action v of None \<Rightarrow> [] | Some act \<Rightarrow> act]) recs =
         map (\<lambda>(v, answer). csv_writerow
                     [case Vendor v of None \<Rightarrow> [] | Some n \<Rightarrow> n,
                      float_str env (Amount v), Description v, Category v,
                      str_lower env (str_strip env answer)]) (zip recs answers)"
  using assms
proof (induction recs arbitrary: answers)
  case Nil
  then show ?case by simp
next
  case (Cons v recs)
  from Cons.prems obtain a as where
    answers: "answers = a # as" and act: "Action v = normalise env a" and
    rest: "map Action recs = map (normalise env) as"
    by (cases answers) auto
  from Cons.IH [OF rest] act show ?case
    by (simp add: answers normalise_def)
qed

subsection \<open>The whole pipeline\<close>

lemma full_pipeline_Inr:
  assumes "full_pipeline env x s = (Inr x', s')"
  shows "\<exists>f l s1 s2 s3 opp msg.
     input_file x = Some f \<and>
     analyze_vendors env f s = (Inr l, s1) \<and>
     recommend_actions env l s1 = (Inr l, s2) \<and>
     identify_top_opportunities env l s2 = (Inr opp, s3) \<and>
     save_to_csv env l s3 = (Inr msg, s') \<and>
     x' = x\<lparr>processed_data := Some l, processed_data_with_actions := Some l,
            top_opportunities := Some opp\<rparr>"
proof -
  from assms obtain x1 s1 x2 s2 x3 s3 where
    a: "process_vendors_tool env x s = (Inr x1, s1)" and
    b: "add_actions_tool env x1 s1 = (Inr x2, s2)" and
    c: "identify_opportunities_tool env x2 s2 = (Inr x3, s3)" and
    d: "save_results_tool env x3 s3 = (Inr x', s')"
    unfolding full_pipeline_def by (auto split: sum.splits prod.splits)
  from a obtain f l where f: "input_file x = Some f" and
    a': "analyze_vendors env f s = (Inr l, s1)" and x1: "x1 = x\<lparr>processed_data := Some l\<rparr>"
    unfolding process_vendors_tool_def by (auto split: option.splits sum.splits prod.splits)
  from b x1 obtain l' where b0: "recommend_actions env l s1 = (Inr l', s2)" and
    x2: "x2 = x1\<lparr>processed_data_with_actions := Some l'\<rparr>"
    unfolding add_actions_tool_def by (auto split: option.splits sum.splits prod.splits)
  from recommend_actions_frame [OF b0] have l': "l' = l" by blast
  from c x2 l' obtain opp where c': "identify_top_opportunities env l s2 = (Inr opp, s3)" and
    x3: "x3 = x2\<lparr>top_opportunities := Some opp\<rparr>"
    unfolding identify_opportunities_tool_def by (auto split: option.splits sum.splits prod.splits)
  from d x3 x2 x1 obtain msg where d': "save_to_csv env l s3 = (Inr msg, s')" and x': "x' = x3"
    unfolding save_results_tool_def by (auto split: option.splits sum.splits prod.splits)
  show ?thesis
    using f a' b0 c' d' x' x3 x2 x1 l' by simp
qed

lemma full_pipeline_Inl:
  assumes "full_pipeline env x s = (Inl e, s')"
  shows "(s' = s \<and> \<not> is_external e) \<or>
     (\<exists>f. analyze_vendors env f s = (Inl e, s')) \<or>
     (\<exists>f l s1. analyze_vendors env f s = (Inr l, s1) \<and> recommend_actions env l s1 = (Inl e, s')) \<or>
     (\<exists>f l s1 s2. analyze_vendors env f s = (Inr l, s1) \<and> recommend_actions env l s1 = (Inr l, s2) \<and>
         identify_top_opportunities env l s2 = (Inl e, s')) \<or>
     (\<exists>f l s1 s2 s3 opp. analyze_vendors env f s = (Inr l, s1) \<and>
         recommend_actions env l s1 = (Inr l, s2) \<and>
         identify_top_opportunities env l s2 = (Inr opp, s3) \<and> save_to_csv env l s3 = (Inl e, s'))"
proof (cases "input_file x")
  case None
  with assms show ?thesis
    by (auto simp: full_pipeline_def process_vendors_tool_def)
next
  case (Some f)
  show ?thesis
  proof (cases "analyze_vendors env f s")
    case a: (Pair r1 s1)
    show ?thesis
    proof (cases r1)
      case (Inl e1)
      with a Some assms show ?thesis
        by (auto simp: full_pipeline_def process_vendors_tool_def)
    next
      case (Inr l)
      note a' = a [unfolded Inr]
      show ?thesis
      proof (cases "recommend_actions env l s1")
        case b: (Pair r2 s2)
        show ?thesis
        proof (cases r2)
          case (Inl e2)
          with a' b Some assms show ?thesis
            by (auto simp: full_pipeline_def process_vendors_tool_def add_actions_tool_def)
        next
          case (Inr l')
          with recommend_actions_frame [OF b] have l': "l' = l" by blast
          note b' = b [unfolded Inr l']
          show ?thesis
          proof (cases "identify_top_opportunities env l s2")
            case c: (Pair r3 s3)
            show ?thesis
            proof (cases r3)
              case (Inl e3)
              with a' b' c Some assms show ?thesis
                by (auto simp: full_pipeline_def process_vendors_tool_def add_actions_tool_def
                    identify_opportunities_tool_def)
            next
              case (Inr opp)
              with a' b' c Some assms have "save_to_csv env l s3 = (Inl e, s')"
                by (auto simp: full_pipeline_def process_vendors_tool_def add_actions_tool_def
                    identify_opportunities_tool_def save_results_tool_def split: sum.splits prod.splits)
              with a' b' c Inr show ?thesis by blast
            qed
          qed
        qed
      qed
    qed
  qed
qed

lemma records_of_fresh:
  assumes "dict_heap s1 = xs @ ds" and "list_heap s1 = ls @ [[length xs ..< length xs + length ds]]"
  shows "records_of s1 (length ls) = ds"
proof -
  have "map (\<lambda>a. (xs @ ds) ! a) [length xs ..< length xs + length ds] = ds"
    by (rule nth_equalityI) (simp_all add: nth_append)
  then show ?thesis
    by (simp add: records_of_def assms)
qed

lemma list_all2_from_row_core:
  assumes "list_all2 (from_row env) rows ds" and "map core ds' = map core ds"
  shows "list_all2 (from_row env) rows ds'"
  using assms
proof (induction arbitrary: ds' rule: list_all2_induct)
  case Nil
  then show ?case by simp
next
  case (Cons r rows d ds)
  from Cons.prems obtain d' ds'' where
    ds': "ds' = d' # ds''" and c: "core d' = core d" and m: "map core ds'' = map core ds"
    by (auto simp: map_eq_Cons_conv)
  from Cons.hyps(1) from_row_core [OF c] have "from_row env r d'" by simp
  with Cons.IH [OF m] show ?case by (simp add: ds')
qed

lemma records_of_same_heap:
  "dict_heap s' = dict_heap s \<Longrightarrow> list_heap s' = list_heap s \<Longrightarrow> records_of s' l = records_of s l"
  by (simp add: records_of_def)

lemma full_pipeline_success:
  assumes "full_pipeline env x s = (Inr x', s')"
  shows "\<exists>f rows l s1 s2 s3 opp msg evs1 evs2 oppname p ts.
     input_file x = Some f \<and> read_ledger env (trace s) f = Inr rows \<and>
     analyze_vendors env f s = (Inr l, s1) \<and>
     recommend_actions env l s1 = (Inr l, s2) \<and>
     identify_top_opportunities env l s2 = (Inr opp, s3) \<and>
     save_to_csv env l s3 = (Inr msg, s') \<and>
     x' = x\<lparr>processed_data := Some l, processed_data_with_actions := Some l,
            top_opportunities := Some opp\<rparr> \<and>
     list_all2 (from_row env) rows (records_of s1 l) \<and>
     map core (records_of s2 l) = map core (records_of s1 l) \<and>
     records_of s3 l = records_of s2 l \<and>
     records_of s' l = records_of s2 l \<and>
     trace s1 = evs1 @ trace s \<and> file_writes evs1 = [] \<and>
     llm_responses ClassificationChain evs1 = map Category (records_of s1 l) \<and>
     llm_responses RecommendationChain evs1 = [] \<and> llm_responses AnalysisChain evs1 = [] \<and>
     trace s2 = evs2 @ trace s1 \<and> file_writes evs2 = [] \<and>
     llm_responses ClassificationChain evs2 = [] \<and> llm_responses AnalysisChain evs2 = [] \<and>
     map Action (records_of s2 l) = map (normalise env) (llm_responses RecommendationChain evs2) \<and>
     trace s3 = [FileWrite oppname opp, LlmInvoke AnalysisChain p (Inr opp),
                 Print ''identifying opportunities''] @ trace s2 \<and>
     trace s' = FileWrite (''results_'' @ ts @ ''.csv'')
                  (csv_text (fieldnames # map (dict_to_list env) (records_of s3 l))) # trace s3"
proof -
  from full_pipeline_Inr [OF assms] obtain f l s1 s2 s3 opp msg where
    f: "input_file x = Some f" and
    a: "analyze_vendors env f s = (Inr l, s1)" and
    b: "recommend_actions env l s1 = (Inr l, s2)" and
    c: "identify_top_opportunities env l s2 = (Inr opp, s3)" and
    d: "save_to_csv env l s3 = (Inr msg, s')" and
    x': "x' = x\<lparr>processed_data := Some l, processed_data_with_actions := Some l,
                 top_opportunities := Some opp\<rparr>"
    by blast
  from analyze_vendors_Inr [OF a] obtain rows ds evs1 where
    rd: "read_ledger env (trace s) f = Inr rows" and l: "l = length (list_heap s)" and
    h1: "dict_heap s1 = dict_heap s @ ds"
        "list_heap s1 = list_heap s @ [[length (dict_heap s) ..< length (dict_heap s) + length ds]]" and
    fr: "list_all2 (from_row env) rows ds" and
    t1: "trace s1 = evs1 @ trace s" "file_writes evs1 = []"
        "llm_responses ClassificationChain evs1 = map Category ds"
        "llm_responses RecommendationChain evs1 = []" "llm_responses AnalysisChain evs1 = []"
    by blast
  have r1: "records_of s1 l = ds"
    unfolding l by (rule records_of_fresh [OF h1])
  have lst: "list_heap s1 ! l = [length (dict_heap s) ..< length (dict_heap s) + length ds]"
    by (simp add: h1 l)
  have dist: "distinct (list_heap s1 ! l)" by (simp add: lst)
  have valid: "\<forall>a \<in> set (list_heap s1 ! l). a < length (dict_heap s1)"
    unfolding lst by (simp add: h1)
  from recommend_actions_frame [OF b] obtain evs2 where
    h2: "list_heap s2 = list_heap s1" "map core (dict_heap s2) = map core (dict_heap s1)" and
    t2: "trace s2 = evs2 @ trace s1" "file_writes evs2 = []"
        "llm_responses ClassificationChain evs2 = []" "llm_responses AnalysisChain evs2 = []"
    by blast
  from recommend_actions_Inr [OF b dist valid] obtain evs2' where
    t2': "trace s2 = evs2' @ trace s1"
         "map Action (records_of s2 l) = map (normalise env) (llm_responses RecommendationChain evs2')"
    by blast
  from t2(1) t2'(1) have "evs2' = evs2" by simp
  with t2'(2) have act:
    "map Action (records_of s2 l) = map (normalise env) (llm_responses RecommendationChain evs2)"
    by simp
  have c2: "map core (records_of s2 l) = map core (records_of s1 l)"
    by (rule records_of_core [OF h2 valid])
  from identify_Inr [OF c] obtain oppname p where
    h3: "dict_heap s3 = dict_heap s2" "list_heap s3 = list_heap s2" and
    t3: "trace s3 = [FileWrite oppname opp, LlmInvoke AnalysisChain p (Inr opp),
                     Print ''identifying opportunities''] @ trace s2"
    by blast
  from save_to_csv_Inr [OF d] obtain ts where
    h4: "dict_heap s' = dict_heap s3" "list_heap s' = list_heap s3" and
    t4: "trace s' = FileWrite (''results_'' @ ts @ ''.csv'')
                      (csv_text (fieldnames # map (dict_to_list env) (records_of s3 l))) # trace s3"
    by blast
  have r3: "records_of s3 l = records_of s2 l"
    by (rule records_of_same_heap [OF h3])
  have r4: "records_of s' l = records_of s2 l"
    using records_of_same_heap [OF h4] r3 by simp
  have fr': "list_all2 (from_row env) rows (records_of s1 l)"
    using fr by (simp only: r1)
  have cls: "llm_responses ClassificationChain evs1 = map Category (records_of s1 l)"
    using t1(3) by (simp only: r1)
  show ?thesis
    apply (intro exI conjI)
                        apply (rule f)
                        apply (rule rd)
                        apply (rule a)
                        apply (rule b)
                        apply (rule c)
                        apply (rule d)
                        apply (rule x')
                        apply (rule fr')
                        apply (rule c2)
                        apply (rule r3)
                        apply (rule r4)
                        apply (rule t1(1))
                        apply (rule t1(2))
                        apply (rule cls)
                        apply (rule t1(4))
                        apply (rule t1(5))
                        apply (rule t2(1))
                        apply (rule t2(2))
                        apply (rule t2(3))
                        apply (rule t2(4))
                        apply (rule act)
                        apply (rule t3)
                        apply (rule t4)
    done
qed

lemma core_Category: "map core ds' = map core ds \<Longrightarrow> map Category ds' = map Category ds"
proof -
  assume "map core ds' = map core ds"
  then have "map ((\<lambda>c. snd (snd (snd c))) \<circ> core) ds' = map ((\<lambda>c. snd (snd (snd c))) \<circ> core) ds"
    by (simp only: map_map [symmetric])
  moreover have "((\<lambda>c. snd (snd (snd c))) \<circ> core) = (Category :: 'a vendor_dict \<Rightarrow> string)"
    by (simp add: fun_eq_iff core_def)
  ultimately show ?thesis by simp
qed

lemma full_pipeline_events:
  assumes "full_pipeline env x s = (Inr x', s')"
  shows "\<exists>l opp oppname ts.
     x' = x\<lparr>processed_data := Some l, processed_data_with_actions := Some l,
            top_opportunities := Some opp\<rparr> \<and>
     map Category (records_of s' l) = llm_responses ClassificationChain (new_events s s') \<and>
     map Action (records_of s' l) = map (normalise env) (llm_responses RecommendationChain (new_events s s')) \<and>
     llm_responses AnalysisChain (new_events s s') = [opp] \<and>
     file_writes (new_events s s') =
       [(oppname, opp),
        (''results_'' @ ts @ ''.csv'', csv_text (fieldnames # map (dict_to_list env) (records_of s' l)))] \<and>
     hd (trace s') = FileWrite (''results_'' @ ts @ ''.csv'')
                       (csv_text (fieldnames # map (dict_to_list env) (records_of s' l)))"
proof -
  from full_pipeline_success [OF assms] obtain l s1 s2 s3 opp evs1 evs2 oppname p ts where
    x': "x' = x\<lparr>processed_data := Some l, processed_data_with_actions := Some l,
                 top_opportunities := Some opp\<rparr>" and
    c2: "map core (records_of s2 l) = map core (records_of s1 l)" and
    r3: "records_of s3 l = records_of s2 l" and r4: "records_of s' l = records_of s2 l" and
    t1: "trace s1 = evs1 @ trace s" "file_writes evs1 = []"
        "llm_responses ClassificationChain evs1 = map Category (records_of s1 l)"
        "llm_responses RecommendationChain evs1 = []" "llm_responses AnalysisChain evs1 = []" and
    t2: "trace s2 = evs2 @ trace s1" "file_writes evs2 = []"
        "llm_responses ClassificationChain evs2 = []" "llm_responses AnalysisChain evs2 = []" and
    act: "map Action (records_of s2 l) = map (normalise env) (llm_responses RecommendationChain evs2)" and
    t3: "trace s3 = [FileWrite oppname opp, LlmInvoke AnalysisChain p (Inr opp),
                     Print ''identifying opportunities''] @ trace s2" and
    t4: "trace s' = FileWrite (''results_'' @ ts @ ''.csv'')
                      (csv_text (fieldnames # map (dict_to_list env) (records_of s3 l))) # trace s3"
    by blast
  let ?w = "FileWrite (''results_'' @ ts @ ''.csv'')
              (csv_text (fieldnames # map (dict_to_list env) (records_of s' l)))"
  let ?evs3 = "[FileWrite oppname opp, LlmInvoke AnalysisChain p (Inr opp),
                Print ''identifying opportunities'']"
  have r34: "records_of s3 l = records_of s' l" by (simp only: r3 r4)
  have tr: "trace s' = ([?w] @ ?evs3 @ evs2 @ evs1) @ trace s"
    by (simp add: t4 t3 t2 t1 r34)
  have ne: "new_events s s' = [?w] @ ?evs3 @ evs2 @ evs1"
    by (rule new_events_append [OF tr])
  have e3: "llm_responses ClassificationChain ?evs3 = []" "llm_responses RecommendationChain ?evs3 = []"
    "llm_responses AnalysisChain ?evs3 = [opp]" "file_writes ?evs3 = [(oppname, opp)]"
    by (simp_all add: llm_responses_def file_writes_def)
  have e4: "llm_responses c [FileWrite n t] = []" "file_writes [FileWrite n t] = [(n, t)]" for c n t
    by (simp_all add: llm_responses_def file_writes_def)
  have act': "map Action (records_of s' l) =
      map (normalise env) (llm_responses RecommendationChain evs2)"
    by (simp only: r4 act)
  have cat: "map Category (records_of s' l) = map Category (records_of s1 l)"
    unfolding r4 by (rule core_Category [OF c2])
  have "map Category (records_of s' l) = llm_responses ClassificationChain (new_events s s')"
    unfolding ne llm_responses_append by (simp only: e3 e4 t1 t2 cat append_Nil2 append_Nil)
  moreover have "map Action (records_of s' l) =
      map (normalise env) (llm_responses RecommendationChain (new_events s s'))"
    unfolding ne llm_responses_append by (simp only: e3 e4 t1 act' append_Nil2 append_Nil)
  moreover have "llm_responses AnalysisChain (new_events s s') = [opp]"
    unfolding ne llm_responses_append by (simp only: e3 e4 t1 t2 append_Nil2 append_Nil)
  moreover have "file_writes (new_events s s') =
       [(oppname, opp),
        (''results_'' @ ts @ ''.csv'', csv_text (fieldnames # map (dict_to_list env) (records_of s' l)))]"
    unfolding ne file_writes_append by (simp only: e3 e4 t1 t2 append_Nil2 append_Nil append_Cons)
  moreover have "hd (trace s') = ?w"
    by (simp add: t4 r34)
  ultimately show ?thesis using x' by blast
qed

lemma external_failure_is_last_event:
  assumes "full_pipeline env x s = (Inl e, s')" and "is_external e"
  shows "\<exists>evs. trace s' = evs @ trace s \<and> evs \<noteq> [] \<and> raised_by (hd evs) e \<and> file_writes evs = []"
proof -
  from full_pipeline_Inl [OF assms(1)] consider
    (none) "s' = s \<and> \<not> is_external e"
  | (enrich) f where "analyze_vendors env f s = (Inl e, s')"
  | (recommend) f l s1 where "analyze_vendors env f s = (Inr l, s1)"
      "recommend_actions env l s1 = (Inl e, s')"
  | (opportunity) f l s1 s2 where "analyze_vendors env f s = (Inr l, s1)"
      "recommend_actions env l s1 = (Inr l, s2)" "identify_top_opportunities env l s2 = (Inl e, s')"
  | (persist) l s3 where "save_to_csv env l s3 = (Inl e, s')"
    by blast
  then show ?thesis
  proof cases
    case none
    with assms(2) show ?thesis by simp
  next
    case enrich
    from analyze_vendors_Inl [OF this] assms(2) show ?thesis by blast
  next
    case recommend
    from analyze_vendors_Inr [OF recommend(1)] obtain evs1 where
      t1: "trace s1 = evs1 @ trace s" "file_writes evs1 = []" by blast
    from recommend_actions_frame [OF recommend(2)] obtain evs2 where
      t2: "trace s' = evs2 @ trace s1" "file_writes evs2 = []"
          "evs2 \<noteq> []" "raised_by (hd evs2) e" by blast
    have "trace s' = (evs2 @ evs1) @ trace s" by (simp add: t1 t2)
    moreover have "evs2 @ evs1 \<noteq> []" "raised_by (hd (evs2 @ evs1)) e"
      using t2(3,4) by simp_all
    moreover have "file_writes (evs2 @ evs1) = []"
      by (simp add: file_writes_append t1 t2)
    ultimately show ?thesis by blast
  next
    case opportunity
    from analyze_vendors_Inr [OF opportunity(1)] obtain evs1 where
      t1: "trace s1 = evs1 @ trace s" "file_writes evs1 = []" by blast
    from recommend_actions_frame [OF opportunity(2)] obtain evs2 where
      t2: "trace s2 = evs2 @ trace s1" "file_writes evs2 = []" by blast
    from identify_Inl [OF opportunity(3)] assms(2) obtain evs3 where
      t3: "trace s' = evs3 @ trace s2" "file_writes evs3 = []"
          "evs3 \<noteq> []" "raised_by (hd evs3) e" by blast
    have "trace s' = (evs3 @ evs2 @ evs1) @ trace s" by (simp add: t1 t2 t3)
    moreover have "evs3 @ evs2 @ evs1 \<noteq> []" "raised_by (hd (evs3 @ evs2 @ evs1)) e"
      using t3(3,4) by simp_all
    moreover have "file_writes (evs3 @ evs2 @ evs1) = []"
      by (simp add: file_writes_append t1 t2 t3)
    ultimately show ?thesis by blast
  next
    case persist
    from save_to_csv_Inl [OF this] assms(2) show ?thesis by simp
  qed
qed

lemma full_pipeline_propagates:
  assumes "full_pipeline env x s = (r, s')"
  shows "\<exists>evs. trace s' = evs @ trace s \<and> propagated r evs"
proof (cases "input_file x")
  case None
  with assms have "s' = s" "r = Inl (KeyError ''input_file'')"
    by (auto simp: full_pipeline_def process_vendors_tool_def)
  then have "trace s' = [] @ trace s \<and> propagated r []"
    by (simp add: propagated_def)
  then show ?thesis by blast
next
  case (Some f)
  obtain r1 s1 where a: "analyze_vendors env f s = (r1, s1)"
    by (cases "analyze_vendors env f s")
  from analyze_vendors_propagates [OF a] obtain evs1 where
    t1: "trace s1 = evs1 @ trace s" and q1: "propagated r1 evs1" by blast
  show ?thesis
  proof (cases r1)
    case (Inl e)
    with assms Some a have "r = Inl e" "s' = s1"
      by (auto simp: full_pipeline_def process_vendors_tool_def)
    with t1 q1 Inl show ?thesis by (auto simp: propagated_def)
  next
    case (Inr l)
    from q1 Inr have n1: "\<not> list_ex is_failed_call evs1" by (simp add: propagated_def)
    obtain r2 s2 where b: "recommend_actions env l s1 = (r2, s2)"
      by (cases "recommend_actions env l s1")
    from recommend_actions_propagates [OF b] obtain evs2 where
      t2: "trace s2 = evs2 @ trace s1" and q2: "propagated r2 evs2" by blast
    show ?thesis
    proof (cases r2)
      case (Inl e)
      with assms Some a b \<open>r1 = Inr l\<close> have "r = Inl e" "s' = s2"
        by (auto simp: full_pipeline_def process_vendors_tool_def add_actions_tool_def)
      with t1 t2 q2 Inl n1 have "trace s' = (evs2 @ evs1) @ trace s \<and> propagated r (evs2 @ evs1)"
        by (auto simp: propagated_def)
      then show ?thesis by blast
    next
      case (Inr l')
      from q2 Inr have n2: "\<not> list_ex is_failed_call evs2" by (simp add: propagated_def)
      obtain r3 s3 where c: "identify_top_opportunities env l' s2 = (r3, s3)"
        by (cases "identify_top_opportunities env l' s2")
      from identify_propagates [OF c] obtain evs3 where
        t3: "trace s3 = evs3 @ trace s2" and q3: "propagated r3 evs3" by blast
      show ?thesis
      proof (cases r3)
        case (Inl e)
        with assms Some a b c \<open>r1 = Inr l\<close> \<open>r2 = Inr l'\<close> have "r = Inl e" "s' = s3"
          by (auto simp: full_pipeline_def process_vendors_tool_def add_actions_tool_def
              identify_opportunities_tool_def)
        with t1 t2 t3 q3 Inl n1 n2
        have "trace s' = (evs3 @ evs2 @ evs1) @ trace s \<and> propagated r (evs3 @ evs2 @ evs1)"
          by (auto simp: propagated_def)
        then show ?thesis by blast
      next
        case (Inr opp)
        from q3 Inr have n3: "\<not> list_ex is_failed_call evs3" by (simp add: propagated_def)
        obtain r4 s4 where d: "save_to_csv env l s3 = (r4, s4)"
          by (cases "save_to_csv env l s3")
        from save_to_csv_propagates [OF d] obtain evs4 where
          t4: "trace s4 = evs4 @ trace s3" and q4: "propagated r4 evs4" by blast
        from assms Some a b c d \<open>r1 = Inr l\<close> \<open>r2 = Inr l'\<close> Inr
        have s': "s' = s4" and r: "(\<exists>e. r = Inl e \<and> r4 = Inl e) \<or> (\<exists>v w. r = Inr v \<and> r4 = Inr w)"
          by (auto simp: full_pipeline_def process_vendors_tool_def add_actions_tool_def
              identify_opportunities_tool_def save_results_tool_def split: sum.splits)
        from r q4 have "propagated r evs4" by (auto simp: propagated_def)
        with n1 n2 n3 have "propagated r (evs4 @ evs3 @ evs2 @ evs1)"
          by (auto simp: propagated_def)
        moreover have "trace s' = (evs4 @ evs3 @ evs2 @ evs1) @ trace s"
          by (simp add: s' t1 t2 t3 t4)
        ultimately show ?thesis by blast
      qed
    qed
  qed
qed

subsection \<open>Runs of the test doubles\<close>

lemmas run_defs = full_pipeline_def process_vendors_tool_def add_actions_tool_def
  identify_opportunities_tool_def save_results_tool_def analyze_vendors_def analyze_vendor_def
  analyze_pipeline_def call_llm_def call_search_def emit_def alloc_list_def alloc_dict_def
  list_append_def recommend_actions_def identify_top_opportunities_def save_to_csv_def
  write_file_def records_of_def parse_amount_def py_replace_single
  stub_env_def stub_row_def stub_float_def ascii_strip_def ascii_lower_def ascii_space_def x0_def s0_def
  ledger2_def Let_def

lemmas stage_defs = call_llm_def call_search_def emit_def alloc_list_def alloc_dict_def
  list_append_def recommend_actions_def identify_top_opportunities_def save_to_csv_def
  write_file_def records_of_def parse_amount_def py_replace_single analyze_vendor_def analyze_pipeline_def
  stub_env_def stub_row_def stub_float_def ascii_strip_def ascii_lower_def ascii_space_def
  s_enriched_def s_actioned_def s_empty_list_def Let_def

lemma stub_run_fst:
  "fst (full_pipeline (stub_env ''SaaS'' None ledger2) x0 s0) =
     Inr \<lparr>input_file = Some ''vendors.csv'', processed_data = Some 0,
         processed_data_with_actions = Some 0, top_opportunities = Some ''SaaS''\<rparr>"
  by (simp add: run_defs)

lemma stub_ok_run:
  "full_pipeline stub_ok x0 s0 =
     (Inr \<lparr>input_file = Some ''vendors.csv'', processed_data = Some 0,
           processed_data_with_actions = Some 0, top_opportunities = Some ''SaaS''\<rparr>,
      snd (full_pipeline stub_ok x0 s0))"
  using stub_run_fst by (simp add: prod_eq_iff stub_ok_def)

lemma stub_ok_categories:
  "llm_responses ClassificationChain (new_events s0 (snd (full_pipeline stub_ok x0 s0))) =
     [''SaaS'', ''SaaS''] \<and>
   list_all (\<lambda>c. c \<in> set departments) [''SaaS'', ''SaaS'']"
  by (simp add: run_defs stub_ok_def new_events_def llm_responses_def departments_def)

lemma stub_search_fails_fst:
  "fst (full_pipeline stub_search_fails x0 s0) = Inl (SearchError ''timeout'')"
  by (simp add: run_defs stub_search_fails_def ledger3_def)

lemma stub_search_fails_counts:
  "length (llm_responses QueryChain (trace (snd (full_pipeline stub_search_fails x0 s0)))) = 2 \<and>
   length (dict_heap (snd (full_pipeline stub_search_fails x0 s0))) = 1"
  by (simp add: run_defs stub_search_fails_def ledger3_def llm_responses_def)

lemma stub_search_fails_events:
  "list_ex is_failed_call (new_events s0 (snd (full_pipeline stub_search_fails x0 s0)))"
  by (simp add: run_defs stub_search_fails_def ledger3_def new_events_def)

lemma stub_search_fails_trace:
  "map (\<lambda>ev. case ev of
          LlmInvoke c p a \<Rightarrow> (''llm'', a) | SearchRun q a \<Rightarrow> (''search'', a)
        | Print t \<Rightarrow> (''print'', Inr t) | FileRead f \<Rightarrow> (''read'', Inr f)
        | FileWrite f t \<Rightarrow> (''write'', Inr f))
     (rev (trace (snd (full_pipeline stub_search_fails x0 s0)))) =
   [(''read'', Inr ''vendors.csv''),
    (''llm'', Inr ''SaaS''), (''search'', Inr ''search results''),
    (''llm'', Inr ''SaaS''), (''llm'', Inr ''SaaS''),
    (''print'', Inr ''classifiying vendor: AWS - SaaS - SaaS''),
    (''llm'', Inr ''SaaS''), (''search'', Inl ''timeout'')]"
  by (simp add: run_defs stub_search_fails_def ledger3_def py_str_def)

lemma stub_shouting_fst: "fst (recommend_actions stub_shouting 0 s_enriched) = Inr 0"
  by (simp add: stage_defs stub_shouting_def)

lemma stub_shouting_actions:
  "map Action (records_of (snd (recommend_actions stub_shouting 0 s_enriched)) 0) =
     [Some ''consolidate: aws'', Some ''consolidate: aws'']"
  by (simp add: stage_defs stub_shouting_def)

lemma stub_save_fst: "fst (save_to_csv stub_ok 0 s_actioned) = Inr ''Data saved to results_20250102_030405.csv''"
  by (simp add: stage_defs stub_ok_def)

lemma stub_save_text:
  "file_writes (trace (snd (save_to_csv stub_ok 0 s_actioned))) =
     [(''results_20250102_030405.csv'',
       ''Vendor,Amount,Description,Category,Action'' @ [CHR 0x0D, CHR 0x0A] @
       ''AWS,1200.0,'' @ [CHR 0x22] @ ''Cloud, compute'' @ [CHR 0x22] @ '',Engineering,optimize'' @
       [CHR 0x0D, CHR 0x0A] @
       ''Zoom,500.0,Video calls,SaaS,terminate'' @ [CHR 0x0D, CHR 0x0A])]"
  by (simp add: stage_defs stub_ok_def file_writes_def
      csv_text_def csv_writerow_def csv_field_def csv_special_def fieldnames_def dict_to_list_def)

lemma stub_three_rows_run:
  "identify_top_opportunities stub_three_rows 0 s_actioned =
     (Inr three_rows, snd (identify_top_opportunities stub_three_rows 0 s_actioned))"
proof -
  have "fst (identify_top_opportunities stub_three_rows 0 s_actioned) = Inr three_rows"
    by (simp add: stage_defs stub_three_rows_def)
  then show ?thesis by (simp add: prod_eq_iff)
qed

lemma three_rows_well_formed:
  "map (\<lambda>r. length (csv_fields False r)) (data_rows three_rows) = [3, 3, 3] \<and>
   opportunities_well_formed three_rows"
  by (simp add: three_rows_def data_rows_def opportunities_well_formed_def)

lemma stub_vendor_fst:
  "fst (analyze_vendor stub_ok 0 (stub_row ''AWS'' ''$1,200.00'') s_empty_list) = Inr ()"
  by (simp add: stage_defs stub_ok_def)

text \<open>
  The end-to-end scenario of the specification (two vendors, amounts \<^verbatim>\<open>$1,200.00\<close> and
  \<^verbatim>\<open>500\<close>) and the header-only ledger, evaluated.
\<close>

lemma two_row_ledger_output:
  "file_writes (trace (snd (full_pipeline stub_ok x0 s0))) =
     [(''opportunities_2025-01-02_03-04-05.txt'', ''SaaS''),
      (''results_20250102_030405.csv'',
       ''Vendor,Amount,Description,Category,Action'' @ [CHR 0x0D, CHR 0x0A] @
       ''AWS,1200.0,SaaS,SaaS,saas'' @ [CHR 0x0D, CHR 0x0A] @
       ''Zoom,500.0,SaaS,SaaS,saas'' @ [CHR 0x0D, CHR 0x0A])]"
  by (simp add: run_defs stub_ok_def file_writes_def
      csv_text_def csv_writerow_def csv_field_def csv_special_def fieldnames_def dict_to_list_def)

lemma empty_ledger_writes_header_only:
  "file_writes (trace (snd (full_pipeline stub_empty x0 s0))) =
     [(''opportunities_2025-01-02_03-04-05.txt'', ''SaaS''),
      (''results_20250102_030405.csv'',
       ''Vendor,Amount,Description,Category,Action'' @ [CHR 0x0D, CHR 0x0A])]"
  by (simp add: run_defs stub_empty_def file_writes_def
      csv_text_def csv_writerow_def csv_field_def csv_special_def fieldnames_def dict_to_list_def)

section \<open>Claims of the specification\<close>

text \<open>
  C1. Whenever the pipeline completes, the results file is the header line followed by one
  line per record of the list, in list order, and these records are paired, in order, with
  the rows of the input ledger after the enrichment stage, after the recommendation stage and
  after the opportunity stage. The ledger is arbitrary: empty, one row or many.
\<close>

theorem output_order_matches_ledger:
  assumes "full_pipeline env x s = (Inr x', s')"
  shows "\<exists>f rows l s1 s2 s3 opp msg name.
     input_file x = Some f \<and> read_ledger env (trace s) f = Inr rows \<and>
     analyze_vendors env f s = (Inr l, s1) \<and>
     recommend_actions env l s1 = (Inr l, s2) \<and>
     identify_top_opportunities env l s2 = (Inr opp, s3) \<and>
     save_to_csv env l s3 = (Inr msg, s') \<and>
     list_all2 (from_row env) rows (records_of s1 l) \<and>
     list_all2 (from_row env) rows (records_of s2 l) \<and>
     list_all2 (from_row env) rows (records_of s3 l) \<and>
     hd (trace s') = FileWrite name (csv_text (fieldnames # map (dict_to_list env) (records_of s3 l))) \<and>
     hd (trace s') =
       FileWrite name
         (csv_writerow [''Vendor'', ''Amount'', ''Description'', ''Category'', ''Action''] @
          concat (map (\<lambda>v. csv_writerow
                     [case Vendor v of None \<Rightarrow> [] | Some n \<Rightarrow> n,
                      float_str env (Amount v), Description v, Category v,
                      case Action v of None \<Rightarrow> [] | Some act \<Rightarrow> act])
                   (records_of s3 l))) \<and>
     csv_writerow [''Vendor'', ''Amount'', ''Description'', ''Category'', ''Action''] =
       ''Vendor,Amount,Description,Category,Action'' @ [CHR 0x0D, CHR 0x0A] \<and>
     map (\<lambda>r. r ''Vendor'') rows = map (\<lambda>v. Some (Vendor v)) (records_of s3 l)"
proof -
  from full_pipeline_success [OF assms] obtain f rows l s1 s2 s3 opp msg ts where
    st: "input_file x = Some f" "read_ledger env (trace s) f = Inr rows"
        "analyze_vendors env f s = (Inr l, s1)" "recommend_actions env l s1 = (Inr l, s2)"
        "identify_top_opportunities env l s2 = (Inr opp, s3)" "save_to_csv env l s3 = (Inr msg, s')" and
    r1: "list_all2 (from_row env) rows (records_of s1 l)" and
    c2: "map core (records_of s2 l) = map core (records_of s1 l)" and
    r3: "records_of s3 l = records_of s2 l" and
    t4: "trace s' = FileWrite (''results_'' @ ts @ ''.csv'')
                      (csv_text (fieldnames # map (dict_to_list env) (records_of s3 l))) # trace s3"
    by blast
  have r2: "list_all2 (from_row env) rows (records_of s2 l)"
    by (rule list_all2_from_row_core [OF r1 c2])
  have r3': "list_all2 (from_row env) rows (records_of s3 l)"
    using r2 by (simp only: r3)
  have w: "hd (trace s') = FileWrite (''results_'' @ ts @ ''.csv'')
                      (csv_text (fieldnames # map (dict_to_list env) (records_of s3 l)))"
    by (simp only: t4 list.sel)
  note w' = w [unfolded csv_text_rows]
  have v: "map (\<lambda>r. r ''Vendor'') rows = map (\<lambda>v. Some (Vendor v)) (records_of s3 l)"
    using r3' by (induction rule: list_all2_induct) (simp_all add: from_row_def)
  show ?thesis
    using st r1 r2 r3' w w' csv_header_line v by blast
qed

theorem output_order_matches_ledger_witness:
  "(\<exists>f rows l s1 s2 s3 opp msg name.
     input_file x0 = Some f \<and> read_ledger stub_ok (trace s0) f = Inr rows \<and>
     analyze_vendors stub_ok f s0 = (Inr l, s1) \<and>
     recommend_actions stub_ok l s1 = (Inr l, s2) \<and>
     identify_top_opportunities stub_ok l s2 = (Inr opp, s3) \<and>
     save_to_csv stub_ok l s3 = (Inr msg, snd (full_pipeline stub_ok x0 s0)) \<and>
     list_all2 (from_row stub_ok) rows (records_of s1 l) \<and>
     list_all2 (from_row stub_ok) rows (records_of s2 l) \<and>
     list_all2 (from_row stub_ok) rows (records_of s3 l) \<and>
     hd (trace (snd (full_pipeline stub_ok x0 s0))) =
       FileWrite name (csv_text (fieldnames # map (dict_to_list stub_ok) (records_of s3 l))) \<and>
     hd (trace (snd (full_pipeline stub_ok x0 s0))) =
       FileWrite name
         (csv_writerow [''Vendor'', ''Amount'', ''Description'', ''Category'', ''Action''] @
          concat (map (\<lambda>v. csv_writerow
                     [case Vendor v of None \<Rightarrow> [] | Some n \<Rightarrow> n,
                      float_str stub_ok (Amount v), Description v, Category v,
                      case Action v of None \<Rightarrow> [] | Some act \<Rightarrow> act])
                   (records_of s3 l))) \<and>
     csv_writerow [''Vendor'', ''Amount'', ''Description'', ''Category'', ''Action''] =
       ''Vendor,Amount,Description,Category,Action'' @ [CHR 0x0D, CHR 0x0A] \<and>
     map (\<lambda>r. r ''Vendor'') rows = map (\<lambda>v. Some (Vendor v)) (records_of s3 l)) \<and>
   file_writes (trace (snd (full_pipeline stub_ok x0 s0))) =
     [(''opportunities_2025-01-02_03-04-05.txt'', ''SaaS''),
      (''results_20250102_030405.csv'',
       ''Vendor,Amount,Description,Category,Action'' @ [CHR 0x0D, CHR 0x0A] @
       ''AWS,1200.0,SaaS,SaaS,saas'' @ [CHR 0x0D, CHR 0x0A] @
       ''Zoom,500.0,SaaS,SaaS,saas'' @ [CHR 0x0D, CHR 0x0A])]"
  using output_order_matches_ledger [OF stub_ok_run] two_row_ledger_output by blast

text \<open>
  C2. Parsing an amount gives what \<^verbatim>\<open>float\<close> gives on the string with every comma and
  dollar sign removed; for \<^verbatim>\<open>$1,250.00\<close> that is \<^verbatim>\<open>float("1250.00")\<close>.
\<close>

theorem amount_parse_strips_separators:
  "parse_amount env a = py_float env (strip_separators a) \<and>
   parse_amount env ''$1,250.00'' = py_float env ''1250.00''"
  by (simp add: parse_amount_def py_replace_single strip_separators_def conj_commute)

text \<open>
  C3. In every run in which a search or generation call fails, the run ends with that
  failure: the result is the exception of the call, the failed call is the last thing the run
  did (so nothing was processed after it) and the run wrote no file. The instance is a search
  that fails on the second of three vendors: the events of the run end with the second
  vendor's query and its failed search, and one record exists.
\<close>

theorem external_failure_aborts_run:
  assumes "full_pipeline env x s = (r, s')"
    and "list_ex is_failed_call (new_events s s')"
  shows "\<exists>e. r = Inl e \<and> is_external e \<and> raised_by (hd (new_events s s')) e \<and>
           file_writes (new_events s s') = []"
proof -
  from full_pipeline_propagates [OF assms(1)] obtain evs where
    t: "trace s' = evs @ trace s" and q: "propagated r evs" by blast
  from new_events_append [OF t] assms(2) have "list_ex is_failed_call evs" by simp
  with q obtain e where r: "r = Inl e" and ext: "is_external e"
    by (auto simp: propagated_def)
  from assms(1) r have "full_pipeline env x s = (Inl e, s')" by simp
  from external_failure_is_last_event [OF this ext] obtain evs' where
    t': "trace s' = evs' @ trace s" and
    l: "raised_by (hd evs') e" "file_writes evs' = []" by blast
  from new_events_append [OF t'] l have
    "raised_by (hd (new_events s s')) e" "file_writes (new_events s s') = []" by simp_all
  with r ext show ?thesis by blast
qed

theorem external_failure_aborts_run_witness:
  "list_ex is_failed_call (new_events s0 (snd (full_pipeline stub_search_fails x0 s0))) \<and>
   (\<exists>e. fst (full_pipeline stub_search_fails x0 s0) = Inl e \<and> is_external e \<and>
      raised_by (hd (new_events s0 (snd (full_pipeline stub_search_fails x0 s0)))) e \<and>
      file_writes (new_events s0 (snd (full_pipeline stub_search_fails x0 s0))) = []) \<and>
   fst (full_pipeline stub_search_fails x0 s0) = Inl (SearchError ''timeout'') \<and>
   length (llm_responses QueryChain (trace (snd (full_pipeline stub_search_fails x0 s0)))) = 2 \<and>
   length (dict_heap (snd (full_pipeline stub_search_fails x0 s0))) = 1 \<and>
   map (\<lambda>ev. case ev of
          LlmInvoke c p a \<Rightarrow> (''llm'', a) | SearchRun q a \<Rightarrow> (''search'', a)
        | Print t \<Rightarrow> (''print'', Inr t) | FileRead f \<Rightarrow> (''read'', Inr f)
        | FileWrite f t \<Rightarrow> (''write'', Inr f))
     (rev (trace (snd (full_pipeline stub_search_fails x0 s0)))) =
   [(''read'', Inr ''vendors.csv''),
    (''llm'', Inr ''SaaS''), (''search'', Inr ''search results''),
    (''llm'', Inr ''SaaS''), (''llm'', Inr ''SaaS''),
    (''print'', Inr ''classifiying vendor: AWS - SaaS - SaaS''),
    (''llm'', Inr ''SaaS''), (''search'', Inl ''timeout'')]"
proof -
  have run: "full_pipeline stub_search_fails x0 s0 =
     (fst (full_pipeline stub_search_fails x0 s0), snd (full_pipeline stub_search_fails x0 s0))"
    by simp
  from external_failure_aborts_run [OF run stub_search_fails_events]
    stub_search_fails_events stub_search_fails_fst stub_search_fails_counts stub_search_fails_trace
  show ?thesis by blast
qed

text \<open>
  C4, as stated, fails: the model answers \<^verbatim>\<open>Pizza\<close>, and \<^verbatim>\<open>Pizza\<close> is stored as the
  category and written to the results file.
\<close>

theorem category_membership_counterexample:
  "fst (full_pipeline stub_pizza x0 s0) =
     Inr \<lparr>input_file = Some ''vendors.csv'', processed_data = Some 0,
          processed_data_with_actions = Some 0, top_opportunities = Some ''Pizza''\<rparr> \<and>
   map Category (records_of (snd (full_pipeline stub_pizza x0 s0)) 0) = [''Pizza''] \<and>
   ''Pizza'' \<notin> set departments \<and>
   file_writes (trace (snd (full_pipeline stub_pizza x0 s0))) =
     [(''opportunities_2025-01-02_03-04-05.txt'', ''Pizza''),
      (''results_20250102_030405.csv'',
       ''Vendor,Amount,Description,Category,Action'' @ [CHR 0x0D, CHR 0x0A] @
       ''AWS,1200.0,Pizza,Pizza,pizza'' @ [CHR 0x0D, CHR 0x0A])]"
  by (simp add: run_defs stub_pizza_def ledger1_def departments_def file_writes_def
      csv_text_def csv_writerow_def csv_field_def csv_special_def fieldnames_def dict_to_list_def)

text \<open>
  C4, amended. The category stored for each vendor and written to the results file is the
  answer of the classification call, verbatim: the Category cell of each line of the file is
  that answer. So the categories are all members of the department set exactly when the
  answers are.
\<close>

theorem category_is_classification_response:
  assumes "full_pipeline env x s = (Inr x', s')"
  shows "\<exists>l name.
     processed_data x' = Some l \<and>
     map Category (records_of s' l) = llm_responses ClassificationChain (new_events s s') \<and>
     hd (trace s') = FileWrite name (csv_text (fieldnames # map (dict_to_list env) (records_of s' l))) \<and>
     map (\<lambda>v. dict_to_list env v ! 3) (records_of s' l) = map Category (records_of s' l) \<and>
     list_all (\<lambda>c. c \<in> set departments) (map Category (records_of s' l)) =
       list_all (\<lambda>c. c \<in> set departments) (llm_responses ClassificationChain (new_events s s')) \<and>
     hd (trace s') =
       FileWrite name
         (csv_writerow [''Vendor'', ''Amount'', ''Description'', ''Category'', ''Action''] @
          concat (map (\<lambda>(v, answer). csv_writerow
                     [case Vendor v of None \<Rightarrow> [] | Some n \<Rightarrow> n,
                      float_str env (Amount v), Description v, answer,
                      case Action v of None \<Rightarrow> [] | Some act \<Rightarrow> act])
                   (zip (records_of s' l)
                        (llm_responses ClassificationChain (new_events s s')))))"
proof -
  from full_pipeline_events [OF assms] obtain l opp ts where
    x': "x' = x\<lparr>processed_data := Some l, processed_data_with_actions := Some l,
                 top_opportunities := Some opp\<rparr>" and
    c: "map Category (records_of s' l) = llm_responses ClassificationChain (new_events s s')" and
    w: "hd (trace s') = FileWrite (''results_'' @ ts @ ''.csv'')
                       (csv_text (fieldnames # map (dict_to_list env) (records_of s' l)))"
    by blast
  have p: "processed_data x' = Some l" by (simp add: x')
  have col: "map (\<lambda>v. dict_to_list env v ! 3) (records_of s' l) = map Category (records_of s' l)"
    by (simp add: dict_to_list_def)
  have m: "list_all (\<lambda>c. c \<in> set departments) (map Category (records_of s' l)) =
       list_all (\<lambda>c. c \<in> set departments) (llm_responses ClassificationChain (new_events s s'))"
    by (simp only: c)
  have z: "map (\<lambda>v. csv_writerow
                     [case Vendor v of None \<Rightarrow> [] | Some n \<Rightarrow> n,
                      float_str env (Amount v), Description v, Category v,
                      case Action v of None \<Rightarrow> [] | Some act \<Rightarrow> act]) recs =
         map (\<lambda>(v, answer). csv_writerow
                     [case Vendor v of None \<Rightarrow> [] | Some n \<Rightarrow> n,
                      float_str env (Amount v), Description v, answer,
                      case Action v of None \<Rightarrow> [] | Some act \<Rightarrow> act]) (zip recs answers)"
    if "map Category recs = answers" for recs :: "'a vendor_dict list" and answers
    using that
  proof (induction recs arbitrary: answers)
    case Nil
    then show ?case by simp
  next
    case (Cons v recs)
    then show ?case by (cases answers) auto
  qed
  note w' = w [unfolded csv_text_rows z [OF c]]
  from p c w col m w' show ?thesis by blast
qed

theorem category_is_classification_response_witness:
  "(\<exists>l name.
     processed_data \<lparr>input_file = Some ''vendors.csv'', processed_data = Some 0,
          processed_data_with_actions = Some 0, top_opportunities = Some ''SaaS''\<rparr> = Some l \<and>
     map Category (records_of (snd (full_pipeline stub_ok x0 s0)) l) =
       llm_responses ClassificationChain (new_events s0 (snd (full_pipeline stub_ok x0 s0))) \<and>
     hd (trace (snd (full_pipeline stub_ok x0 s0))) =
       FileWrite name (csv_text (fieldnames #
          map (dict_to_list stub_ok) (records_of (snd (full_pipeline stub_ok x0 s0)) l))) \<and>
     map (\<lambda>v. dict_to_list stub_ok v ! 3) (records_of (snd (full_pipeline stub_ok x0 s0)) l) =
       map Category (records_of (snd (full_pipeline stub_ok x0 s0)) l) \<and>
     list_all (\<lambda>c. c \<in> set departments)
         (map Category (records_of (snd (full_pipeline stub_ok x0 s0)) l)) =
       list_all (\<lambda>c. c \<in> set departments)
         (llm_responses ClassificationChain (new_events s0 (snd (full_pipeline stub_ok x0 s0)))) \<and>
     hd (trace (snd (full_pipeline stub_ok x0 s0))) =
       FileWrite name
         (csv_writerow [''Vendor'', ''Amount'', ''Description'', ''Category'', ''Action''] @
          concat (map (\<lambda>(v, answer). csv_writerow
                     [case Vendor v of None \<Rightarrow> [] | Some n \<Rightarrow> n,
                      float_str stub_ok (Amount v), Description v, answer,
                      case Action v of None \<Rightarrow> [] | Some act \<Rightarrow> act])
                   (zip (records_of (snd (full_pipeline stub_ok x0 s0)) l)
                        (llm_responses ClassificationChain
                           (new_events s0 (snd (full_pipeline stub_ok x0 s0)))))))) \<and>
   llm_responses ClassificationChain (new_events s0 (snd (full_pipeline stub_ok x0 s0))) =
     [''SaaS'', ''SaaS''] \<and>
   list_all (\<lambda>c. c \<in> set departments) [''SaaS'', ''SaaS''] \<and>
   file_writes (trace (snd (full_pipeline stub_ok x0 s0))) =
     [(''opportunities_2025-01-02_03-04-05.txt'', ''SaaS''),
      (''results_20250102_030405.csv'',
       ''Vendor,Amount,Description,Category,Action'' @ [CHR 0x0D, CHR 0x0A] @
       ''AWS,1200.0,SaaS,SaaS,saas'' @ [CHR 0x0D, CHR 0x0A] @
       ''Zoom,500.0,SaaS,SaaS,saas'' @ [CHR 0x0D, CHR 0x0A])]"
  using category_is_classification_response [OF stub_ok_run] stub_ok_categories
    two_row_ledger_output by blast

text \<open>
  C5. After the recommendation stage, the actions of the records are the answers of the
  recommendation calls, each stripped and lowercased, in order; the stage checks nothing else,
  and the only failure it has is that of the call. The records of a list are distinct objects.
\<close>

theorem action_is_trimmed_lowercased_response:
  assumes "recommend_actions env l s = (r, s')" and "distinct (list_heap s ! l)" and "valid_refs s l"
  shows "case r of
           Inr l' \<Rightarrow> map Action (records_of s' l) =
                      map (normalise env) (llm_responses RecommendationChain (new_events s s'))
         | Inl e \<Rightarrow> (\<exists>m. e = GenerationError m)"
proof (cases r)
  case (Inl e)
  with assms(1) recommend_actions_Inl_kind show ?thesis by auto
next
  case (Inr l')
  have v: "\<forall>a \<in> set (list_heap s ! l). a < length (dict_heap s)"
    using assms(3) by (simp add: valid_refs_def list_all_iff)
  from assms(1) Inr have "recommend_actions env l s = (Inr l', s')" by simp
  from recommend_actions_Inr [OF this assms(2) v] obtain evs where
    "trace s' = evs @ trace s"
    "map Action (records_of s' l) = map (normalise env) (llm_responses RecommendationChain evs)"
    by blast
  with new_events_append [of s' evs s] Inr show ?thesis by simp
qed

theorem action_is_trimmed_lowercased_response_witness:
  "recommend_actions stub_shouting 0 s_enriched =
     (Inr 0, snd (recommend_actions stub_shouting 0 s_enriched)) \<and>
   distinct (list_heap s_enriched ! 0) \<and> valid_refs s_enriched 0 \<and>
   map Action (records_of (snd (recommend_actions stub_shouting 0 s_enriched)) 0) =
     map (normalise stub_shouting)
       (llm_responses RecommendationChain
          (new_events s_enriched (snd (recommend_actions stub_shouting 0 s_enriched)))) \<and>
   map Action (records_of (snd (recommend_actions stub_shouting 0 s_enriched)) 0) =
     [Some ''consolidate: aws'', Some ''consolidate: aws'']"
proof -
  have run: "recommend_actions stub_shouting 0 s_enriched =
     (Inr 0, snd (recommend_actions stub_shouting 0 s_enriched))"
    using stub_shouting_fst by (simp add: prod_eq_iff)
  have d: "distinct (list_heap s_enriched ! 0)" by (simp add: s_enriched_def)
  have v: "valid_refs s_enriched 0" by (simp add: s_enriched_def valid_refs_def)
  from action_is_trimmed_lowercased_response [OF run d v] run d v stub_shouting_actions
  show ?thesis by simp
qed

text \<open>
  C6. \<^verbatim>\<open>save_to_csv\<close> writes one file: the header row
  \<^verbatim>\<open>Vendor,Amount,Description,Category,Action\<close>, then one row per record of the list, in
  order, of these five cells.
\<close>

theorem save_to_csv_writes_table:
  assumes "save_to_csv env l s = (Inr msg, s')"
  shows "\<exists>ts.
     trace s' =
       FileWrite (''results_'' @ ts @ ''.csv'')
         (csv_writerow [''Vendor'', ''Amount'', ''Description'', ''Category'', ''Action''] @
          concat (map (\<lambda>v. csv_writerow
                     [case Vendor v of None \<Rightarrow> [] | Some n \<Rightarrow> n,
                      float_str env (Amount v), Description v, Category v,
                      case Action v of None \<Rightarrow> [] | Some act \<Rightarrow> act])
                   (records_of s l))) # trace s \<and>
     csv_writerow [''Vendor'', ''Amount'', ''Description'', ''Category'', ''Action''] =
       ''Vendor,Amount,Description,Category,Action'' @ [CHR 0x0D, CHR 0x0A] \<and>
     length (records_of s l) = length (list_heap s ! l) \<and>
     list_all (\<lambda>cells. length cells = 5) (fieldnames # map (dict_to_list env) (records_of s l)) \<and>
     dict_heap s' = dict_heap s \<and> list_heap s' = list_heap s"
proof -
  from save_to_csv_Inr [OF assms] obtain ts where
    h: "dict_heap s' = dict_heap s" "list_heap s' = list_heap s" and
    t: "trace s' = FileWrite (''results_'' @ ts @ ''.csv'')
                     (csv_text (fieldnames # map (dict_to_list env) (records_of s l))) # trace s"
    by blast
  have content: "csv_text (fieldnames # map (dict_to_list env) (records_of s l)) =
     csv_writerow [''Vendor'', ''Amount'', ''Description'', ''Category'', ''Action''] @
     concat (map (\<lambda>v. csv_writerow
                     [case Vendor v of None \<Rightarrow> [] | Some n \<Rightarrow> n,
                      float_str env (Amount v), Description v, Category v,
                      case Action v of None \<Rightarrow> [] | Some act \<Rightarrow> act])
                   (records_of s l))"
    by (simp add: csv_text_def fieldnames_def dict_to_list_def comp_def)
  have hdr: "csv_writerow [''Vendor'', ''Amount'', ''Description'', ''Category'', ''Action''] =
       ''Vendor,Amount,Description,Category,Action'' @ [CHR 0x0D, CHR 0x0A]"
    by (simp add: csv_writerow_def csv_field_def csv_special_def)
  have len: "length (records_of s l) = length (list_heap s ! l)"
    by (simp add: records_of_def)
  have five: "list_all (\<lambda>cells. length cells = 5) (fieldnames # map (dict_to_list env) (records_of s l))"
    by (simp add: fieldnames_def dict_to_list_def list_all_iff)
  from t [unfolded content] hdr len five h show ?thesis by blast
qed

theorem save_to_csv_writes_table_witness:
  "save_to_csv stub_ok 0 s_actioned =
     (Inr ''Data saved to results_20250102_030405.csv'', snd (save_to_csv stub_ok 0 s_actioned)) \<and>
   (\<exists>ts.
     trace (snd (save_to_csv stub_ok 0 s_actioned)) =
       FileWrite (''results_'' @ ts @ ''.csv'')
         (csv_writerow [''Vendor'', ''Amount'', ''Description'', ''Category'', ''Action''] @
          concat (map (\<lambda>v. csv_writerow
                     [case Vendor v of None \<Rightarrow> [] | Some n \<Rightarrow> n,
                      float_str stub_ok (Amount v), Description v, Category v,
                      case Action v of None \<Rightarrow> [] | Some act \<Rightarrow> act])
                   (records_of s_actioned 0))) # trace s_actioned \<and>
     csv_writerow [''Vendor'', ''Amount'', ''Description'', ''Category'', ''Action''] =
       ''Vendor,Amount,Description,Category,Action'' @ [CHR 0x0D, CHR 0x0A] \<and>
     length (records_of s_actioned 0) = length (list_heap s_actioned ! 0) \<and>
     list_all (\<lambda>cells. length cells = 5)
       (fieldnames # map (dict_to_list stub_ok) (records_of s_actioned 0)) \<and>
     dict_heap (snd (save_to_csv stub_ok 0 s_actioned)) = dict_heap s_actioned \<and>
     list_heap (snd (save_to_csv stub_ok 0 s_actioned)) = list_heap s_actioned) \<and>
   file_writes (trace (snd (save_to_csv stub_ok 0 s_actioned))) =
     [(''results_20250102_030405.csv'',
       ''Vendor,Amount,Description,Category,Action'' @ [CHR 0x0D, CHR 0x0A] @
       ''AWS,1200.0,'' @ [CHR 0x22] @ ''Cloud, compute'' @ [CHR 0x22] @ '',Engineering,optimize'' @
       [CHR 0x0D, CHR 0x0A] @
       ''Zoom,500.0,Video calls,SaaS,terminate'' @ [CHR 0x0D, CHR 0x0A])]"
proof -
  have run: "save_to_csv stub_ok 0 s_actioned =
     (Inr ''Data saved to results_20250102_030405.csv'', snd (save_to_csv stub_ok 0 s_actioned))"
    using stub_save_fst by (simp add: prod_eq_iff)
  from save_to_csv_writes_table [OF run] run stub_save_text show ?thesis by blast
qed

text \<open>
  C7, as stated, fails: the model answers four rows of two fields, and that text is what
  the opportunities file holds.
\<close>

theorem opportunity_rows_counterexample:
  "fst (identify_top_opportunities stub_four_rows 0 s_actioned) = Inr four_rows \<and>
   file_writes (trace (snd (identify_top_opportunities stub_four_rows 0 s_actioned))) =
     [(''opportunities_2025-01-02_03-04-05.txt'', four_rows)] \<and>
   data_rows four_rows = [''Acme,terminate'', ''Beta,optimize'', ''Gamma,optimize'', ''Delta,terminate''] \<and>
   map (\<lambda>r. length (csv_fields False r)) (data_rows four_rows) = [2, 2, 2, 2] \<and>
   \<not> opportunities_well_formed four_rows"
  by (simp add: stage_defs stub_four_rows_def file_writes_def four_rows_def data_rows_def
      opportunities_well_formed_def)

text \<open>
  C7, amended. The opportunities file holds the answer of the model, unchanged; so it has
  at most 3 data rows of 3 fields exactly when the answer has.
\<close>

theorem opportunities_file_is_raw_response:
  assumes "identify_top_opportunities env l s = (Inr opp, s')"
  shows "llm_responses AnalysisChain (new_events s s') = [opp] \<and>
     (\<exists>name. file_writes (new_events s s') = [(name, opp)]) \<and>
     map (\<lambda>w. opportunities_well_formed (snd w)) (file_writes (new_events s s')) =
       [opportunities_well_formed opp] \<and>
     dict_heap s' = dict_heap s \<and> list_heap s' = list_heap s"
proof -
  from identify_Inr [OF assms] obtain name p where
    h: "dict_heap s' = dict_heap s" "list_heap s' = list_heap s" and
    t: "trace s' = [FileWrite name opp, LlmInvoke AnalysisChain p (Inr opp),
                    Print ''identifying opportunities''] @ trace s"
    by blast
  note ne = new_events_append [OF t]
  have r: "llm_responses AnalysisChain (new_events s s') = [opp]"
    and w: "file_writes (new_events s s') = [(name, opp)]"
    unfolding ne by (simp_all add: llm_responses_def file_writes_def)
  have f: "map (\<lambda>w. opportunities_well_formed (snd w)) (file_writes (new_events s s')) =
       [opportunities_well_formed opp]"
    by (simp add: w)
  from r w f h show ?thesis by blast
qed

theorem opportunities_file_is_raw_response_witness:
  "llm_responses AnalysisChain
     (new_events s_actioned (snd (identify_top_opportunities stub_three_rows 0 s_actioned))) = [three_rows] \<and>
   (\<exists>name. file_writes
      (new_events s_actioned (snd (identify_top_opportunities stub_three_rows 0 s_actioned))) =
        [(name, three_rows)]) \<and>
   map (\<lambda>w. opportunities_well_formed (snd w))
     (file_writes (new_events s_actioned (snd (identify_top_opportunities stub_three_rows 0 s_actioned)))) =
       [opportunities_well_formed three_rows] \<and>
   dict_heap (snd (identify_top_opportunities stub_three_rows 0 s_actioned)) = dict_heap s_actioned \<and>
   list_heap (snd (identify_top_opportunities stub_three_rows 0 s_actioned)) = list_heap s_actioned \<and>
   map (\<lambda>r. length (csv_fields False r)) (data_rows three_rows) = [3, 3, 3] \<and>
   opportunities_well_formed three_rows"
  using opportunities_file_is_raw_response [OF stub_three_rows_run] three_rows_well_formed by blast

text \<open>
  C8. Whatever its outcome, the recommendation stage leaves the list object as it was (no
  record added or removed) and leaves Vendor, Amount, Description and Category of every record
  unchanged.
\<close>

theorem recommendation_only_adds_action:
  assumes "recommend_actions env l s = (r, s')" and "valid_refs s l"
  shows "list_heap s' = list_heap s \<and>
     length (dict_heap s') = length (dict_heap s) \<and>
     map core (dict_heap s') = map core (dict_heap s) \<and>
     length (records_of s' l) = length (records_of s l) \<and>
     map core (records_of s' l) = map core (records_of s l)"
proof -
  have v: "\<forall>a \<in> set (list_heap s ! l). a < length (dict_heap s)"
    using assms(2) by (simp add: valid_refs_def list_all_iff)
  from recommend_actions_frame [OF assms(1)] have
    h: "list_heap s' = list_heap s" "map core (dict_heap s') = map core (dict_heap s)"
    by blast+
  from h(2) have len: "length (dict_heap s') = length (dict_heap s)" by (metis length_map)
  have n: "length (records_of s' l) = length (records_of s l)"
    by (simp add: records_of_def h(1))
  from h len n records_of_core [OF h v] show ?thesis by simp
qed

theorem recommendation_only_adds_action_witness:
  "recommend_actions stub_shouting 0 s_enriched =
     (Inr 0, snd (recommend_actions stub_shouting 0 s_enriched)) \<and>
   valid_refs s_enriched 0 \<and>
   list_heap (snd (recommend_actions stub_shouting 0 s_enriched)) = list_heap s_enriched \<and>
   length (dict_heap (snd (recommend_actions stub_shouting 0 s_enriched))) = length (dict_heap s_enriched) \<and>
   map core (dict_heap (snd (recommend_actions stub_shouting 0 s_enriched))) = map core (dict_heap s_enriched) \<and>
   length (records_of (snd (recommend_actions stub_shouting 0 s_enriched)) 0) =
     length (records_of s_enriched 0) \<and>
   map core (records_of (snd (recommend_actions stub_shouting 0 s_enriched)) 0) =
     map core (records_of s_enriched 0)"
proof -
  have run: "recommend_actions stub_shouting 0 s_enriched =
     (Inr 0, snd (recommend_actions stub_shouting 0 s_enriched))"
    using stub_shouting_fst by (simp add: prod_eq_iff)
  have v: "valid_refs s_enriched 0" by (simp add: s_enriched_def valid_refs_def)
  from recommendation_only_adds_action [OF run v] run v show ?thesis by simp
qed

text \<open>
  C9. With a model and a search that answer the same whatever happened before, enriching
  the same ledger row a second time succeeds again and stores a record with the same
  description and category.
\<close>

theorem enrichment_idempotent:
  assumes "deterministic env"
    and "analyze_vendor env l r s = (Inr u, s1)"
    and "analyze_vendor env l' r s1 = (res, s2)"
  shows "res = Inr u \<and>
     (\<exists>d1 d2. dict_heap s1 = dict_heap s @ [d1] \<and> dict_heap s2 = dict_heap s1 @ [d2] \<and>
        Description d2 = Description d1 \<and> Category d2 = Category d1)"
proof -
  from analyze_vendor_Inr_record [OF assms(2)] obtain name a amt res1 sa where
    v: "r ''Vendor'' = Some name" and p1: "analyze_pipeline env name s = (Inr res1, sa)" and
    a: "r ''Amount'' = Some (Some a)" and f: "parse_amount env a = Some amt" and
    h1: "dict_heap s1 = dict_heap s @
       [\<lparr>Vendor = name, Amount = amt, Description = service_description res1,
         Category = category res1, Action = None\<rparr>]"
    by blast
  have "fst (analyze_pipeline env name s1) = fst (analyze_pipeline env name s)"
    by (rule analyze_pipeline_deterministic [OF assms(1)])
  with p1 obtain sb where p2: "analyze_pipeline env name s1 = (Inr res1, sb)"
    by (cases "analyze_pipeline env name s1") simp
  from assms(3) have res: "res = Inr ()" and
    h2': "dict_heap s2 = dict_heap sb @
       [\<lparr>Vendor = name, Amount = amt, Description = service_description res1,
         Category = category res1, Action = None\<rparr>]"
    unfolding analyze_vendor_def
    by (auto simp: v p2 a f alloc_dict_def list_append_def emit_def Let_def)
  from analyze_pipeline_Inr [OF p2] have "dict_heap sb = dict_heap s1" by blast
  with h2' have h2: "dict_heap s2 = dict_heap s1 @
       [\<lparr>Vendor = name, Amount = amt, Description = service_description res1,
         Category = category res1, Action = None\<rparr>]"
    by simp
  from res h1 h2 show ?thesis by auto
qed

theorem enrichment_idempotent_witness:
  "deterministic stub_ok \<and>
   analyze_vendor stub_ok 0 (stub_row ''AWS'' ''$1,200.00'') s_empty_list =
     (Inr (), snd (analyze_vendor stub_ok 0 (stub_row ''AWS'' ''$1,200.00'') s_empty_list)) \<and>
   fst (analyze_vendor stub_ok 0 (stub_row ''AWS'' ''$1,200.00'')
          (snd (analyze_vendor stub_ok 0 (stub_row ''AWS'' ''$1,200.00'') s_empty_list))) = Inr () \<and>
   (\<exists>d1 d2.
      dict_heap (snd (analyze_vendor stub_ok 0 (stub_row ''AWS'' ''$1,200.00'') s_empty_list)) =
        dict_heap s_empty_list @ [d1] \<and>
      dict_heap (snd (analyze_vendor stub_ok 0 (stub_row ''AWS'' ''$1,200.00'')
          (snd (analyze_vendor stub_ok 0 (stub_row ''AWS'' ''$1,200.00'') s_empty_list)))) =
        dict_heap (snd (analyze_vendor stub_ok 0 (stub_row ''AWS'' ''$1,200.00'') s_empty_list)) @ [d2] \<and>
      Description d2 = Description d1 \<and> Category d2 = Category d1)"
proof -
  let ?r = "stub_row ''AWS'' ''$1,200.00''"
  let ?s1 = "snd (analyze_vendor stub_ok 0 ?r s_empty_list)"
  have det: "deterministic stub_ok"
    by (simp add: deterministic_def stub_ok_def stub_env_def)
  have run1: "analyze_vendor stub_ok 0 ?r s_empty_list = (Inr (), ?s1)"
    using stub_vendor_fst by (simp add: prod_eq_iff)
  have run2: "analyze_vendor stub_ok 0 ?r ?s1 =
     (fst (analyze_vendor stub_ok 0 ?r ?s1), snd (analyze_vendor stub_ok 0 ?r ?s1))"
    by simp
  from enrichment_idempotent [OF det run1 run2] det run1 show ?thesis by simp
qed

text \<open>
  C10. Whenever the pipeline completes, \<^verbatim>\<open>processed_data\<close> and
  \<^verbatim>\<open>processed_data_with_actions\<close> hold the same list reference, every record of that list has
  its action (the lowercased, stripped answer), the results file is the header line followed
  by one line per record whose Action cell is that answer, and the opportunities file holds
  the answer of the analysis call, which is the string bound to \<^verbatim>\<open>top_opportunities\<close>.
\<close>

theorem pipeline_shares_records:
  assumes "full_pipeline env x s = (Inr x', s')"
  shows "\<exists>l opp oppname csvname.
     processed_data x' = Some l \<and> processed_data_with_actions x' = Some l \<and>
     top_opportunities x' = Some opp \<and>
     map Action (records_of s' l) =
       map (normalise env) (llm_responses RecommendationChain (new_events s s')) \<and>
     map (\<lambda>v. Some (dict_to_list env v ! 4)) (records_of s' l) = map Action (records_of s' l) \<and>
     file_writes (new_events s s') =
       [(oppname, opp),
        (csvname, csv_text (fieldnames # map (dict_to_list env) (records_of s' l)))] \<and>
     file_writes (new_events s s') =
       [(oppname, opp),
        (csvname,
         csv_writerow [''Vendor'', ''Amount'', ''Description'', ''Category'', ''Action''] @
         concat (map (\<lambda>(v, answer). csv_writerow
                     [case Vendor v of None \<Rightarrow> [] | Some n \<Rightarrow> n,
                      float_str env (Amount v), Description v, Category v,
                      str_lower env (str_strip env answer)])
                   (zip (records_of s' l)
                        (llm_responses RecommendationChain (new_events s s')))))] \<and>
     length (llm_responses RecommendationChain (new_events s s')) = length (records_of s' l) \<and>
     csv_writerow [''Vendor'', ''Amount'', ''Description'', ''Category'', ''Action''] =
       ''Vendor,Amount,Description,Category,Action'' @ [CHR 0x0D, CHR 0x0A] \<and>
     llm_responses AnalysisChain (new_events s s') = [opp]"
proof -
  from full_pipeline_events [OF assms] obtain l opp oppname ts where
    x': "x' = x\<lparr>processed_data := Some l, processed_data_with_actions := Some l,
                 top_opportunities := Some opp\<rparr>" and
    a: "map Action (records_of s' l) =
          map (normalise env) (llm_responses RecommendationChain (new_events s s'))" and
    an: "llm_responses AnalysisChain (new_events s s') = [opp]" and
    w: "file_writes (new_events s s') =
       [(oppname, opp),
        (''results_'' @ ts @ ''.csv'', csv_text (fieldnames # map (dict_to_list env) (records_of s' l)))]"
    by blast
  have p: "processed_data x' = Some l" "processed_data_with_actions x' = Some l"
    "top_opportunities x' = Some opp" by (simp_all add: x')
  have "Some (dict_to_list env v ! 4) = Action v" if "v \<in> set (records_of s' l)" for v
  proof -
    from that have "Action v \<in> set (map Action (records_of s' l))" by simp
    then have "Action v \<in> set (map (normalise env) (llm_responses RecommendationChain (new_events s s')))"
      by (simp only: a)
    then obtain t where "Action v = Some t" by (auto simp: normalise_def)
    then show ?thesis by (simp add: dict_to_list_def)
  qed
  then have col: "map (\<lambda>v. Some (dict_to_list env v ! 4)) (records_of s' l) = map Action (records_of s' l)"
    by simp
  have len: "length (llm_responses RecommendationChain (new_events s s')) = length (records_of s' l)"
    using a by (metis length_map)
  note w' = w [unfolded csv_text_rows rows_with_actions [OF a]]
  from p a col w w' len csv_header_line an show ?thesis by blast
qed

theorem pipeline_shares_records_witness:
  "(\<exists>l opp oppname csvname.
     processed_data \<lparr>input_file = Some ''vendors.csv'', processed_data = Some 0,
           processed_data_with_actions = Some 0, top_opportunities = Some ''SaaS''\<rparr> = Some l \<and>
     processed_data_with_actions \<lparr>input_file = Some ''vendors.csv'', processed_data = Some 0,
           processed_data_with_actions = Some 0, top_opportunities = Some ''SaaS''\<rparr> = Some l \<and>
     top_opportunities \<lparr>input_file = Some ''vendors.csv'', processed_data = Some 0,
           processed_data_with_actions = Some 0, top_opportunities = Some ''SaaS''\<rparr> = Some opp \<and>
     map Action (records_of (snd (full_pipeline stub_ok x0 s0)) l) =
       map (normalise stub_ok)
         (llm_responses RecommendationChain (new_events s0 (snd (full_pipeline stub_ok x0 s0)))) \<and>
     map (\<lambda>v. Some (dict_to_list stub_ok v ! 4)) (records_of (snd (full_pipeline stub_ok x0 s0)) l) =
       map Action (records_of (snd (full_pipeline stub_ok x0 s0)) l) \<and>
     file_writes (new_events s0 (snd (full_pipeline stub_ok x0 s0))) =
       [(oppname, opp),
        (csvname, csv_text (fieldnames #
            map (dict_to_list stub_ok) (records_of (snd (full_pipeline stub_ok x0 s0)) l)))] \<and>
     file_writes (new_events s0 (snd (full_pipeline stub_ok x0 s0))) =
       [(oppname, opp),
        (csvname,
         csv_writerow [''Vendor'', ''Amount'', ''Description'', ''Category'', ''Action''] @
         concat (map (\<lambda>(v, answer). csv_writerow
                     [case Vendor v of None \<Rightarrow> [] | Some n \<Rightarrow> n,
                      float_str stub_ok (Amount v), Description v, Category v,
                      str_lower stub_ok (str_strip stub_ok answer)])
                   (zip (records_of (snd (full_pipeline stub_ok x0 s0)) l)
                        (llm_responses RecommendationChain
                           (new_events s0 (snd (full_pipeline stub_ok x0 s0)))))))] \<and>
     length (llm_responses RecommendationChain (new_events s0 (snd (full_pipeline stub_ok x0 s0)))) =
       length (records_of (snd (full_pipeline stub_ok x0 s0)) l) \<and>
     csv_writerow [''Vendor'', ''Amount'', ''Description'', ''Category'', ''Action''] =
       ''Vendor,Amount,Description,Category,Action'' @ [CHR 0x0D, CHR 0x0A] \<and>
     llm_responses AnalysisChain (new_events s0 (snd (full_pipeline stub_ok x0 s0))) = [opp]) \<and>
   file_writes (trace (snd (full_pipeline stub_ok x0 s0))) =
     [(''opportunities_2025-01-02_03-04-05.txt'', ''SaaS''),
      (''results_20250102_030405.csv'',
       ''Vendor,Amount,Description,Category,Action'' @ [CHR 0x0D, CHR 0x0A] @
       ''AWS,1200.0,SaaS,SaaS,saas'' @ [CHR 0x0D, CHR 0x0A] @
       ''Zoom,500.0,SaaS,SaaS,saas'' @ [CHR 0x0D, CHR 0x0A])] \<and>
   map Action (records_of (snd (full_pipeline stub_ok x0 s0)) 0) = [Some ''saas'', Some ''saas'']"
proof -
  have acts: "map Action (records_of (snd (full_pipeline stub_ok x0 s0)) 0) = [Some ''saas'', Some ''saas'']"
    by (simp add: run_defs stub_ok_def)
  from pipeline_shares_records [OF stub_ok_run] two_row_ledger_output acts show ?thesis by blast
qed

end
